theory Spec2Isabelle
  imports Complex_Main
begin

section \<open>Determinant model\<close>

text \<open>
  Modelled from the spec: the classes \<open>HalfDet\<close> and \<open>Det\<close> are declared in headers that
  are not part of the sources at hand. The data model describes a determinant as a pair
  of fixed-width bit-vectors \<open>up\<close> and \<open>dn\<close>, indexed by spatial orbital, a set bit
  meaning an occupied orbital, ordered through the canonical bit encoding. A half
  determinant is therefore the natural number whose binary digits are the bits, and the
  order on half determinants is the order of these numbers. The operations are written
  with plain arithmetic so that they compute on numerals.
\<close>

type_synonym HalfDet = nat

definition has :: "HalfDet \<Rightarrow> nat \<Rightarrow> bool" where
  "has h k = odd (h div 2 ^ k)"

definition set_orb :: "HalfDet \<Rightarrow> nat \<Rightarrow> HalfDet" where
  "set_orb h k = (if has h k then h else h + 2 ^ k)"

definition unset_orb :: "HalfDet \<Rightarrow> nat \<Rightarrow> HalfDet" where
  "unset_orb h k = (if has h k then h - 2 ^ k else h)"

definition get_occupied_orbs :: "HalfDet \<Rightarrow> nat list" where
  "get_occupied_orbs h = filter (has h) [0..<h]"

text \<open>
  Modelled from the spec: \<open>HalfDet::diff\<close> yields the two orbital lists of the symmetric
  difference, the orbitals only in the first argument and the orbitals only in the second.
\<close>

definition diff :: "HalfDet \<Rightarrow> HalfDet \<Rightarrow> nat list \<times> nat list" where
  "diff a b = (filter (\<lambda>k. \<not> has b k) (get_occupied_orbs a),
               filter (\<lambda>k. \<not> has a k) (get_occupied_orbs b))"

definition n_occ :: "HalfDet \<Rightarrow> nat" where
  "n_occ h = length (get_occupied_orbs h)"

record Det =
  up :: HalfDet
  dn :: HalfDet

section \<open>Errors\<close>

text \<open>
  The ways in which the modelled functions leave their normal path: \<open>exit(status)\<close>, a
  thrown \<open>std::runtime_error\<close> with its message, the \<open>std::out_of_range\<close> of
  \<open>vector::at\<close>, a failed \<open>assert\<close>, and a read or write through \<open>operator[]\<close> past the end
  of a vector, which C++ leaves undefined.
\<close>

datatype error =
    ProcessExit int
  | RuntimeError string
  | OutOfRange
  | AssertionFailed
  | InvalidAccess

definition vec_read :: "'a list \<Rightarrow> nat \<Rightarrow> error + 'a" where
  "vec_read xs i = (if i < length xs then Inr (xs ! i) else Inl InvalidAccess)"

definition vec_at :: "'a list \<Rightarrow> nat \<Rightarrow> error + 'a" where
  "vec_at xs i = (if i < length xs then Inr (xs ! i) else Inl OutOfRange)"

fun for_each :: "'a list \<Rightarrow> ('a \<Rightarrow> 's \<Rightarrow> error + 's) \<Rightarrow> 's \<Rightarrow> error + 's" where
  "for_each [] body st = Inr st"
| "for_each (x # xs) body st =
     (case body x st of Inl e \<Rightarrow> Inl e | Inr st' \<Rightarrow> for_each xs body st')"

section \<open>Green: the extended basis\<close>

text \<open>
  The members of \<open>Green\<close> that \<open>construct_pdets\<close> reads and writes: the map
  \<open>pdet_to_id\<close>, the vectors \<open>system.dets\<close> and \<open>system.coefs\<close>, and \<open>n_pdets\<close>.
  The primary basis \<open>dets_store\<close> and \<open>n_orbs\<close> are read only and passed as arguments.
\<close>

record Green =
  pdet_to_id :: "Det \<rightharpoonup> nat"
  system_dets :: "Det list"
  system_coefs :: "real list"
  n_pdets :: nat

text \<open>
  \<open>if (pdet_to_id.count(det) == 0) { pdet_to_id[det] = system.dets.size();
  system.dets.push_back(det); }\<close>
\<close>

definition add_pdet :: "Det \<Rightarrow> Green \<Rightarrow> Green" where
  "add_pdet det g =
     (if pdet_to_id g det = None
      then g\<lparr>pdet_to_id := (pdet_to_id g)(det \<mapsto> length (system_dets g)),
             system_dets := system_dets g @ [det]\<rparr>
      else g)"

text \<open>The body of the loop over \<open>k\<close>; the local \<open>det\<close> is changed and changed back.\<close>

definition pdets_up :: "nat \<Rightarrow> Det \<times> Green \<Rightarrow> Det \<times> Green" where
  "pdets_up k = (\<lambda>(det, g).
     if \<not> has (up det) k
     then (let det1 = det\<lparr>up := set_orb (up det) k\<rparr>;
               g1 = add_pdet det1 g
           in (det1\<lparr>up := unset_orb (up det1) k\<rparr>, g1))
     else (det, g))"

definition pdets_dn :: "nat \<Rightarrow> Det \<times> Green \<Rightarrow> Det \<times> Green" where
  "pdets_dn k = (\<lambda>(det, g).
     if \<not> has (dn det) k
     then (let det1 = det\<lparr>dn := set_orb (dn det) k\<rparr>;
               g1 = add_pdet det1 g
           in (det1\<lparr>dn := unset_orb (dn det1) k\<rparr>, g1))
     else (det, g))"

definition pdets_orb :: "nat \<Rightarrow> Det \<times> Green \<Rightarrow> Det \<times> Green" where
  "pdets_orb k st = pdets_dn k (pdets_up k st)"

text \<open>The body of the loop over the primary determinants.\<close>

definition pdets_det :: "nat \<Rightarrow> Det \<Rightarrow> Green \<Rightarrow> Green" where
  "pdets_det norbs det g = snd (fold pdets_orb [0..<norbs] (det, g))"

definition construct_pdets :: "nat \<Rightarrow> Det list \<Rightarrow> Green \<Rightarrow> Green" where
  "construct_pdets norbs dets_store g =
     (let g1 = fold (pdets_det norbs) dets_store g;
          m = length (system_dets g1)
      in g1\<lparr>n_pdets := m, system_coefs := replicate m 0\<rparr>)"

text \<open>
  \<open>Green::run\<close> clears \<open>system.dets\<close> and \<open>system.coefs\<close> before it calls
  \<open>construct_pdets\<close>; in a newly constructed \<open>Green\<close> the map \<open>pdet_to_id\<close> is empty.
\<close>

definition green_init :: Green where
  "green_init = \<lparr>pdet_to_id = Map.empty, system_dets = [], system_coefs = [], n_pdets = 0\<rparr>"

definition n_elec :: "Det \<Rightarrow> nat" where
  "n_elec det = n_occ (up det) + n_occ (dn det)"

text \<open>The determinants reachable from \<open>d\<close> by one insertion into an empty spin-orbital.\<close>

definition one_insertion :: "nat \<Rightarrow> Det \<Rightarrow> Det \<Rightarrow> bool" where
  "one_insertion norbs d e \<longleftrightarrow>
     (\<exists>k \<in> set [0..<norbs].
        (\<not> has (up d) k \<and> e = d\<lparr>up := set_orb (up d) k\<rparr>) \<or>
        (\<not> has (dn d) k \<and> e = d\<lparr>dn := set_orb (dn d) k\<rparr>))"

text \<open>The index map and the determinant list describe the same numbering.\<close>

definition pdets_inv :: "Green \<Rightarrow> bool" where
  "pdets_inv g \<longleftrightarrow>
     distinct (system_dets g) \<and>
     dom (pdet_to_id g) = set (system_dets g) \<and>
     (\<forall>i < length (system_dets g). pdet_to_id g (system_dets g ! i) = Some i)"

text \<open>The invariant of the loop over the orbitals of one primary determinant.\<close>

definition pdets_loop_inv :: "nat \<Rightarrow> Det \<Rightarrow> Green \<Rightarrow> Det \<times> Green \<Rightarrow> bool" where
  "pdets_loop_inv norbs det g0 st \<longleftrightarrow>
     fst st = det \<and> pdets_inv (snd st) \<and>
     set (system_dets (snd st)) \<subseteq> set (system_dets g0) \<union> {e. one_insertion norbs det e}"

section \<open>ChemSystem\<close>

datatype PointGroup = D2h | Dooh | NoPointGroup

text \<open>
  The members of \<open>ChemSystem\<close> that the modelled functions read. \<open>PointGroup::None\<close> is
  written \<open>NoPointGroup\<close>. The collaborators whose code is not part of the sources at hand
  are fields as well, so that every statement holds whatever they compute: the product
  table (\<open>get_n_syms\<close>, \<open>get_product\<close>), \<open>Integrals::combine2\<close> and \<open>integrals.get_2b\<close>.
  The type \<open>unsigned\<close> is modelled by the natural numbers (no orbital index comes near
  \<open>2^32\<close>) and \<open>double\<close> by the real numbers.
\<close>

record ChemSystem =
  n_up :: nat
  n_dn :: nat
  n_orbs :: nat
  orb_sym :: "nat list"
  time_sym :: bool
  z :: int
  point_group :: PointGroup
  get_n_syms :: nat
  get_product :: "nat \<Rightarrow> nat \<Rightarrow> nat"
  combine2 :: "nat \<Rightarrow> nat \<Rightarrow> nat"
  get_2b :: "nat \<Rightarrow> nat \<Rightarrow> nat \<Rightarrow> nat \<Rightarrow> real"

text \<open>\<open>setup\<close> assigns \<open>n_elecs = n_up + n_dn\<close>.\<close>

definition n_elecs :: "ChemSystem \<Rightarrow> nat" where
  "n_elecs sys = n_up sys + n_dn sys"

definition err_bind :: "error + 'a \<Rightarrow> ('a \<Rightarrow> error + 'b) \<Rightarrow> error + 'b" where
  "err_bind m f = (case m of Inl e \<Rightarrow> Inl e | Inr x \<Rightarrow> f x)"

subsection \<open>The excitation queue\<close>

datatype Hrs = Hrs (H: real) (dest_r: nat) (dest_s: nat)

text \<open>
  The members written by \<open>setup_hci_queue\<close>, with its local counter \<open>n_entries\<close>.
\<close>

record HciState =
  sym_orbs :: "nat list list"
  hci_queue :: "Hrs list list"
  n_entries :: nat
  max_hci_queue_elem :: real

text \<open>In a newly constructed \<open>ChemSystem\<close> both vectors are empty.\<close>

definition hci_init :: HciState where
  "hci_init = \<lparr>sym_orbs = [], hci_queue = [], n_entries = 0, max_hci_queue_elem = 0\<rparr>"

text \<open>\<open>vector::resize\<close> keeps the leading elements and fills up with empty vectors.\<close>

definition resize :: "nat \<Rightarrow> 'a list list \<Rightarrow> 'a list list" where
  "resize m xs = take m xs @ replicate (m - length xs) []"

definition two_body_same :: "ChemSystem \<Rightarrow> nat list \<times> nat list \<Rightarrow> real" where
  "two_body_same sys diff_ij =
     (if length (fst diff_ij) \<noteq> 2 \<or> length (snd diff_ij) \<noteq> 2 then 0
      else get_2b sys (fst diff_ij ! 0) (snd diff_ij ! 0) (fst diff_ij ! 1) (snd diff_ij ! 1)
         - get_2b sys (fst diff_ij ! 0) (snd diff_ij ! 1) (fst diff_ij ! 1) (snd diff_ij ! 0))"

text \<open>The parameter \<open>no_sign\<close> guards an empty block in the source.\<close>

definition get_two_body_double :: "ChemSystem \<Rightarrow> Det \<Rightarrow> Det \<Rightarrow> bool \<Rightarrow> real" where
  "get_two_body_double sys det_i det_j no_sign =
     (if up det_i = up det_j then two_body_same sys (diff (dn det_i) (dn det_j))
      else if dn det_i = dn det_j then two_body_same sys (diff (up det_i) (up det_j))
      else
        (let diff_ij_up = diff (up det_i) (up det_j);
             diff_ij_dn = diff (dn det_i) (dn det_j)
         in if length (fst diff_ij_up) \<noteq> 1 \<or> length (snd diff_ij_up) \<noteq> 1 then 0
            else if length (fst diff_ij_dn) \<noteq> 1 \<or> length (snd diff_ij_dn) \<noteq> 1 then 0
            else get_2b sys (fst diff_ij_up ! 0) (snd diff_ij_up ! 0)
                            (fst diff_ij_dn ! 0) (snd diff_ij_dn ! 0)))"

text \<open>
  A default constructed \<open>Det\<close> has no orbital set. \<open>abs\<close> is the absolute value of a
  \<open>double\<close>.
\<close>

definition get_hci_queue_elem :: "ChemSystem \<Rightarrow> nat \<Rightarrow> nat \<Rightarrow> nat \<Rightarrow> nat \<Rightarrow> error + real" where
  "get_hci_queue_elem sys p q r s =
     (if p = q \<or> r = s \<or> p = r \<or> q = s \<or> p = s \<or> q = r then Inr 0
      else if p < n_orbs sys \<and> q < n_orbs sys then
        (if \<not> r < n_orbs sys then Inl AssertionFailed
         else if \<not> s < n_orbs sys then Inl AssertionFailed
         else Inr \<bar>get_two_body_double sys
                     \<lparr>up = set_orb (set_orb 0 p) q, dn = 0\<rparr>
                     \<lparr>up = set_orb (set_orb 0 r) s, dn = 0\<rparr> True\<bar>)
      else if p < n_orbs sys \<and> q \<ge> n_orbs sys then
        (if \<not> r < n_orbs sys then Inl AssertionFailed
         else if \<not> s \<ge> n_orbs sys then Inl AssertionFailed
         else Inr \<bar>get_two_body_double sys
                     \<lparr>up = set_orb 0 p, dn = set_orb 0 (q - n_orbs sys)\<rparr>
                     \<lparr>up = set_orb 0 r, dn = set_orb 0 (s - n_orbs sys)\<rparr> True\<bar>)
      else Inl (RuntimeError ''impossible pqrs for getting hci queue elem''))"

text \<open>\<open>sym_orbs[orb_sym[orb]].push_back(orb)\<close>\<close>

definition add_sym_orb :: "ChemSystem \<Rightarrow> nat \<Rightarrow> HciState \<Rightarrow> error + HciState" where
  "add_sym_orb sys orb st =
     err_bind (vec_read (orb_sym sys) orb) (\<lambda>sym.
       if sym < length (sym_orbs st)
       then Inr (st\<lparr>sym_orbs := (sym_orbs st)[sym := sym_orbs st ! sym @ [orb]]\<rparr>)
       else Inl InvalidAccess)"

text \<open>\<open>hci_queue.at(pq).push_back(e)\<close>\<close>

definition push_entry :: "nat \<Rightarrow> Hrs \<Rightarrow> HciState \<Rightarrow> error + HciState" where
  "push_entry pq e st =
     err_bind (vec_at (hci_queue st) pq) (\<lambda>bucket.
       Inr (st\<lparr>hci_queue := (hci_queue st)[pq := bucket @ [e]]\<rparr>))"

text \<open>
  \<open>std::sort\<close> with the comparison \<open>a.H > b.H\<close>. The order it leaves among entries of
  equal \<open>H\<close> is unspecified; the model takes the stable one.
\<close>

definition sort_desc :: "Hrs list \<Rightarrow> Hrs list" where
  "sort_desc xs = sort_key (\<lambda>e. - H e) xs"

text \<open>The block after the loop over \<open>r\<close>, the same in both halves of the builder.\<close>

definition finish_bucket :: "nat \<Rightarrow> HciState \<Rightarrow> error + HciState" where
  "finish_bucket pq st =
     err_bind (vec_at (hci_queue st) pq) (\<lambda>bucket.
       if length bucket > 0 then
         (let sorted_bucket = sort_desc bucket
          in Inr (st\<lparr>hci_queue := (hci_queue st)[pq := sorted_bucket],
                     n_entries := n_entries st + length sorted_bucket,
                     max_hci_queue_elem :=
                       max (max_hci_queue_elem st) (H (hd sorted_bucket))\<rparr>))
       else Inr st)"

text \<open>Same spin: the bodies of the loops over \<open>s\<close>, \<open>r\<close>, \<open>q\<close> and \<open>p\<close>.\<close>

definition same_spin_s ::
  "ChemSystem \<Rightarrow> nat \<Rightarrow> nat \<Rightarrow> nat \<Rightarrow> nat \<Rightarrow> nat \<Rightarrow> HciState \<Rightarrow> error + HciState" where
  "same_spin_s sys p q pq r s st =
     (if s < r then Inr st
      else err_bind (get_hci_queue_elem sys p q r s) (\<lambda>h.
        if h = 0 then Inr st else push_entry pq (Hrs h r s) st))"

definition same_spin_r ::
  "ChemSystem \<Rightarrow> nat \<Rightarrow> nat \<Rightarrow> nat \<Rightarrow> nat \<Rightarrow> nat \<Rightarrow> HciState \<Rightarrow> error + HciState" where
  "same_spin_r sys p q pq sym_q r st =
     err_bind (vec_read (orb_sym sys) r) (\<lambda>sym_r.
       if point_group sys = Dooh then Inl (ProcessExit 0)
       else err_bind (vec_read (sym_orbs st) (get_product sys sym_q sym_r)) (\<lambda>orbs.
         for_each orbs (same_spin_s sys p q pq r) st))"

definition same_spin_q :: "ChemSystem \<Rightarrow> nat \<Rightarrow> nat \<Rightarrow> nat \<Rightarrow> HciState \<Rightarrow> error + HciState" where
  "same_spin_q sys p sym_p q st =
     (let pq = combine2 sys p q
      in err_bind (vec_read (orb_sym sys) q) (\<lambda>sq.
           err_bind
             (for_each [0..<n_orbs sys]
                (same_spin_r sys p q pq (get_product sys sym_p sq)) st)
             (finish_bucket pq)))"

definition same_spin_p :: "ChemSystem \<Rightarrow> nat \<Rightarrow> HciState \<Rightarrow> error + HciState" where
  "same_spin_p sys p st =
     err_bind (vec_read (orb_sym sys) p) (\<lambda>sym_p.
       for_each [p + 1..<n_orbs sys] (same_spin_q sys p sym_p) st)"

text \<open>Opposite spin: here every entry also counts and updates the maximum at once.\<close>

definition opp_spin_s ::
  "ChemSystem \<Rightarrow> nat \<Rightarrow> nat \<Rightarrow> nat \<Rightarrow> nat \<Rightarrow> nat \<Rightarrow> HciState \<Rightarrow> error + HciState" where
  "opp_spin_s sys p q pq r s st =
     err_bind (get_hci_queue_elem sys p q r (s + n_orbs sys)) (\<lambda>h.
       if h = 0 then Inr st
       else err_bind (push_entry pq (Hrs h r (s + n_orbs sys)) st) (\<lambda>st1.
         Inr (st1\<lparr>n_entries := n_entries st1 + 1,
                  max_hci_queue_elem := max (max_hci_queue_elem st1) h\<rparr>)))"

definition opp_spin_r ::
  "ChemSystem \<Rightarrow> nat \<Rightarrow> nat \<Rightarrow> nat \<Rightarrow> nat \<Rightarrow> nat \<Rightarrow> HciState \<Rightarrow> error + HciState" where
  "opp_spin_r sys p q pq sym_q r st =
     err_bind (vec_read (orb_sym sys) r) (\<lambda>sym_r.
       if point_group sys = Dooh then Inl (ProcessExit 0)
       else err_bind (vec_read (sym_orbs st) (get_product sys sym_q sym_r)) (\<lambda>orbs.
         for_each orbs (opp_spin_s sys p q pq r) st))"

definition opp_spin_q :: "ChemSystem \<Rightarrow> nat \<Rightarrow> nat \<Rightarrow> nat \<Rightarrow> HciState \<Rightarrow> error + HciState" where
  "opp_spin_q sys p sym_p q st =
     (let pq = combine2 sys p q
      in err_bind (vec_read (orb_sym sys) (q - n_orbs sys)) (\<lambda>sq.
           err_bind
             (for_each [0..<n_orbs sys]
                (opp_spin_r sys p q pq (get_product sys sym_p sq)) st)
             (finish_bucket pq)))"

definition opp_spin_p :: "ChemSystem \<Rightarrow> nat \<Rightarrow> HciState \<Rightarrow> error + HciState" where
  "opp_spin_p sys p st =
     err_bind (vec_read (orb_sym sys) p) (\<lambda>sym_p.
       for_each [n_orbs sys + p..<n_orbs sys * 2] (opp_spin_q sys p sym_p) st)"

definition setup_hci_queue :: "ChemSystem \<Rightarrow> HciState \<Rightarrow> error + HciState" where
  "setup_hci_queue sys st0 =
     err_bind
       (for_each [0..<n_orbs sys] (add_sym_orb sys)
          (st0\<lparr>sym_orbs := resize (get_n_syms sys + 1) (sym_orbs st0)\<rparr>))
       (\<lambda>st1.
          err_bind
            (for_each [0..<n_orbs sys] (same_spin_p sys)
               (st1\<lparr>n_entries := 0, max_hci_queue_elem := 0,
                    hci_queue :=
                      resize (combine2 sys (n_orbs sys) (2 * n_orbs sys)) (hci_queue st1)\<rparr>))
            (for_each [0..<n_orbs sys] (opp_spin_p sys)))"

text \<open>All entries of a queue, and the order the sort establishes in a bucket.\<close>

definition entries :: "Hrs list list \<Rightarrow> Hrs set" where
  "entries qu = \<Union> (set ` set qu)"

definition sorted_desc :: "Hrs list \<Rightarrow> bool" where
  "sorted_desc xs = sorted_wrt (\<lambda>a b. H b \<le> H a) xs"

text \<open>
  The queue while the bucket \<open>pq\<close> is being filled: the other buckets are sorted and
  bounded by the running maximum, every entry is positive, and the running maximum is
  zero or the magnitude of an entry.
\<close>

definition queue_inv :: "bool \<Rightarrow> nat \<Rightarrow> HciState \<Rightarrow> bool" where
  "queue_inv filling pq st \<longleftrightarrow>
     (\<forall>i < length (hci_queue st). \<not> (filling \<and> i = pq) \<longrightarrow>
        sorted_desc (hci_queue st ! i) \<and>
        (\<forall>e \<in> set (hci_queue st ! i). H e \<le> max_hci_queue_elem st)) \<and>
     (\<forall>e \<in> entries (hci_queue st). 0 < H e) \<and>
     (max_hci_queue_elem st = 0 \<or> max_hci_queue_elem st \<in> H ` entries (hci_queue st))"

text \<open>
  The index collisions that \<open>get_hci_queue_elem\<close> rejects first.
\<close>

definition degenerate :: "nat \<Rightarrow> nat \<Rightarrow> nat \<Rightarrow> nat \<Rightarrow> bool" where
  "degenerate p q r s \<longleftrightarrow> p = q \<or> r = s \<or> p = r \<or> q = s \<or> p = s \<or> q = r"

text \<open>
  In the words of the specification: an explicit failure that reports the unsupported
  symmetry, that is a thrown error with its message or a non-zero exit status, and neither
  a normal return nor a silent exit with status zero.
\<close>

definition unsupported_symmetry_failure :: "error + HciState \<Rightarrow> bool" where
  "unsupported_symmetry_failure res =
     (case res of
        Inl (RuntimeError msg) \<Rightarrow> True
      | Inl (ProcessExit status) \<Rightarrow> status \<noteq> 0
      | _ \<Rightarrow> False)"

subsection \<open>Connected determinants: single excitations\<close>

text \<open>
  Modelled from the spec: \<open>Util::SQRT2\<close> and \<open>Util::SQRT2_INV\<close> are declared in a header
  that is not part of the sources at hand; the specification names the two factors as the
  square root of two and its inverse.
\<close>

definition SQRT2 :: real where
  "SQRT2 = sqrt 2"

definition SQRT2_INV :: real where
  "SQRT2_INV = 1 / sqrt 2"

text \<open>The member function of the sources at hand returns \<open>0.0\<close> for every pair.\<close>

definition get_hamiltonian_elem :: "Det \<Rightarrow> Det \<Rightarrow> real" where
  "get_hamiltonian_elem det_i det_j = 0"

text \<open>
  \<open>connected_det.up.unset(a).set(b)\<close> for an up electron, the same on \<open>dn\<close> otherwise;
  used with \<open>(p, r)\<close> to form a candidate and with \<open>(r, p)\<close> to undo it.
\<close>

definition move_electron :: "bool \<Rightarrow> Det \<Rightarrow> nat \<Rightarrow> nat \<Rightarrow> Det" where
  "move_electron is_up cd a b =
     (if is_up then cd\<lparr>up := set_orb (unset_orb (up cd) a) b\<rparr>
      else cd\<lparr>dn := set_orb (unset_orb (dn cd) a) b\<rparr>)"

text \<open>The two tests under the first \<open>if (time_sym)\<close>.\<close>

definition time_sym_skip :: "ChemSystem \<Rightarrow> Det \<Rightarrow> Det \<Rightarrow> bool" where
  "time_sym_skip sys det cd \<longleftrightarrow>
     time_sym sys \<and>
     ((up cd = dn cd \<and> z sys < 0) \<or> (up cd = dn det \<and> dn cd = up det))"

text \<open>\<open>abs(matrix_elem) > eps_max || abs(matrix_elem) < eps_min\<close>\<close>

definition out_of_window :: "real \<Rightarrow> real \<Rightarrow> real \<Rightarrow> bool" where
  "out_of_window eps_max eps_min m \<longleftrightarrow> \<bar>m\<bar> > eps_max \<or> \<bar>m\<bar> < eps_min"

text \<open>The rescaling and the swap under the second \<open>if (time_sym)\<close>.\<close>

definition scale_elem :: "ChemSystem \<Rightarrow> Det \<Rightarrow> Det \<Rightarrow> real \<Rightarrow> real" where
  "scale_elem sys det cd m =
     (if time_sym sys then
        (if up det = dn det \<and> up cd \<noteq> dn cd then m * SQRT2_INV
         else if up det \<noteq> dn det \<and> up cd = dn cd then m * SQRT2
         else m)
      else m)"

definition canonicalize :: "ChemSystem \<Rightarrow> Det \<Rightarrow> real \<Rightarrow> Det \<times> real" where
  "canonicalize sys cd m =
     (if time_sym sys \<and> up cd > dn cd
      then (\<lparr>up = dn cd, dn = up cd\<rparr>, m * of_int (z sys))
      else (cd, m))"

text \<open>What the handler receives for a candidate that is not skipped.\<close>

definition delivery :: "(Det \<Rightarrow> Det \<Rightarrow> real) \<Rightarrow> ChemSystem \<Rightarrow> Det \<Rightarrow> Det \<Rightarrow> Det \<times> real" where
  "delivery ham sys det cd = canonicalize sys cd (scale_elem sys det cd (ham det cd))"

text \<open>
  The body of the loop over \<open>r\<close>. The state is the local \<open>connected_det\<close> together with
  the calls made to \<open>connected_det_handler\<close> so far. The three \<open>continue\<close> statements
  after the candidate is formed leave \<open>connected_det\<close> as it is; the last two statements
  of the body undo the move on the determinant that was handed over.
\<close>

definition excite_single ::
  "(Det \<Rightarrow> Det \<Rightarrow> real) \<Rightarrow> ChemSystem \<Rightarrow> Det \<Rightarrow> real \<Rightarrow> real \<Rightarrow> nat \<Rightarrow> nat \<Rightarrow> nat \<Rightarrow> nat
     \<Rightarrow> Det \<times> (Det \<times> real) list \<Rightarrow> error + Det \<times> (Det \<times> real) list" where
  "excite_single ham sys det eps_max eps_min p_id p sym_p r = (\<lambda>(cd, out).
     if (if p_id < n_up sys then has (up det) r else has (dn det) r) then Inr (cd, out)
     else err_bind (vec_read (orb_sym sys) r) (\<lambda>sym_r.
       if sym_r \<noteq> sym_p then Inr (cd, out)
       else
         (let cd1 = move_electron (p_id < n_up sys) cd p r
          in if time_sym_skip sys det cd1 then Inr (cd1, out)
             else if out_of_window eps_max eps_min (ham det cd1) then Inr (cd1, out)
             else
               (let sent = delivery ham sys det cd1
                in Inr (move_electron (p_id < n_up sys) (fst sent) r p, out @ [sent])))))"

text \<open>The body of the loop over \<open>p_id\<close>.\<close>

definition excite_from ::
  "(Det \<Rightarrow> Det \<Rightarrow> real) \<Rightarrow> ChemSystem \<Rightarrow> Det \<Rightarrow> real \<Rightarrow> real \<Rightarrow> nat
     \<Rightarrow> Det \<times> (Det \<times> real) list \<Rightarrow> error + Det \<times> (Det \<times> real) list" where
  "excite_from ham sys det eps_max eps_min p_id st =
     err_bind
       (if p_id < n_up sys then vec_read (get_occupied_orbs (up det)) p_id
        else vec_read (get_occupied_orbs (dn det)) (p_id - n_up sys))
       (\<lambda>p. err_bind (vec_read (orb_sym sys) p) (\<lambda>sym_p.
          for_each [0..<n_orbs sys] (excite_single ham sys det eps_max eps_min p_id p sym_p) st))"

definition window_max :: "ChemSystem \<Rightarrow> real \<Rightarrow> real" where
  "window_max sys eps_max_in = (if time_sym sys then eps_max_in * SQRT2 else eps_max_in)"

definition window_min :: "ChemSystem \<Rightarrow> real \<Rightarrow> real" where
  "window_min sys eps_min_in = (if time_sym sys then eps_min_in * SQRT2 else eps_min_in)"

text \<open>
  \<open>find_connected_dets\<close> for any Hamiltonian element function; the result is the list of
  calls to the handler, in order.
\<close>

definition find_connected_dets_with ::
  "(Det \<Rightarrow> Det \<Rightarrow> real) \<Rightarrow> ChemSystem \<Rightarrow> Det \<Rightarrow> real \<Rightarrow> real \<Rightarrow> error + (Det \<times> real) list" where
  "find_connected_dets_with ham sys det eps_max_in eps_min_in =
     err_bind
       (for_each [0..<n_elecs sys]
          (excite_from ham sys det (window_max sys eps_max_in) (window_min sys eps_min_in))
          (det, []))
       (\<lambda>st. Inr (snd st))"

definition find_connected_dets ::
  "ChemSystem \<Rightarrow> Det \<Rightarrow> real \<Rightarrow> real \<Rightarrow> error + (Det \<times> real) list" where
  "find_connected_dets sys det eps_max_in eps_min_in =
     find_connected_dets_with get_hamiltonian_elem sys det eps_max_in eps_min_in"

text \<open>
  A candidate that reaches the handler: it differs from the source determinant, passes the
  two time-reversal tests and lies in the window.
\<close>

definition admitted ::
  "(Det \<Rightarrow> Det \<Rightarrow> real) \<Rightarrow> ChemSystem \<Rightarrow> Det \<Rightarrow> real \<Rightarrow> real \<Rightarrow> Det \<Rightarrow> bool" where
  "admitted ham sys det eps_max eps_min cd \<longleftrightarrow>
     cd \<noteq> det \<and> \<not> time_sym_skip sys det cd \<and> \<not> out_of_window eps_max eps_min (ham det cd)"

definition swap_spin :: "Det \<Rightarrow> Det" where
  "swap_spin d = \<lparr>up = dn d, dn = up d\<rparr>"

text \<open>The invariant of the two loops: every call to the handler so far was admitted.\<close>

definition sent_ok ::
  "(Det \<Rightarrow> Det \<Rightarrow> real) \<Rightarrow> ChemSystem \<Rightarrow> Det \<Rightarrow> real \<Rightarrow> real \<Rightarrow> Det \<times> (Det \<times> real) list \<Rightarrow> bool" where
  "sent_ok ham sys det eps_max eps_min st \<longleftrightarrow>
     (\<forall>x \<in> set (snd st). \<exists>c. admitted ham sys det eps_max eps_min c \<and> x = delivery ham sys det c)"

text \<open>
  In the words of the specification, for time-reversal symmetry switched on: the raw
  element times \<open>1/\<surd>2\<close> from a spin-symmetric source to a candidate that is not, times
  \<open>\<surd>2\<close> the other way round, and times \<open>z\<close> when the up half of the candidate exceeds
  its down half, in which case the candidate is handed over with the halves swapped.
\<close>

definition spec_delivery :: "(Det \<Rightarrow> Det \<Rightarrow> real) \<Rightarrow> ChemSystem \<Rightarrow> Det \<Rightarrow> Det \<Rightarrow> Det \<times> real" where
  "spec_delivery ham sys det c =
     (if dn c < up c then swap_spin c else c,
      ham det c
        * (if up det = dn det \<and> up c \<noteq> dn c then 1 / sqrt 2
           else if up det \<noteq> dn det \<and> up c = dn c then sqrt 2
           else 1)
        * (if dn c < up c then of_int (z sys) else 1))"

subsection \<open>The candidates of a run\<close>

text \<open>
  A pass of the loop over \<open>r\<close> that gets beyond the occupancy and the symmetry test forms
  one candidate: \<open>connected_det\<close> as it stands, with \<open>p\<close> cleared and \<open>r\<close> set in the half
  of the electron.
\<close>

definition formed_by :: "ChemSystem \<Rightarrow> Det \<Rightarrow> nat \<Rightarrow> nat \<Rightarrow> nat \<Rightarrow> nat \<Rightarrow> Det \<Rightarrow> Det list" where
  "formed_by sys det p_id p sym_p r cd =
     (if (if p_id < n_up sys then has (up det) r else has (dn det) r) then []
      else if vec_read (orb_sym sys) r = Inr sym_p
      then [move_electron (p_id < n_up sys) cd p r]
      else [])"

text \<open>
  The same loops, with the candidates formed so far recorded beside the state of
  \<open>excite_single\<close>.
\<close>

definition traced_single ::
  "(Det \<Rightarrow> Det \<Rightarrow> real) \<Rightarrow> ChemSystem \<Rightarrow> Det \<Rightarrow> real \<Rightarrow> real \<Rightarrow> nat \<Rightarrow> nat \<Rightarrow> nat \<Rightarrow> nat
     \<Rightarrow> (Det \<times> (Det \<times> real) list) \<times> Det list
     \<Rightarrow> error + (Det \<times> (Det \<times> real) list) \<times> Det list" where
  "traced_single ham sys det eps_max eps_min p_id p sym_p r = (\<lambda>(st, formed).
     err_bind (excite_single ham sys det eps_max eps_min p_id p sym_p r st) (\<lambda>st1.
       Inr (st1, formed @ formed_by sys det p_id p sym_p r (fst st))))"

definition traced_from ::
  "(Det \<Rightarrow> Det \<Rightarrow> real) \<Rightarrow> ChemSystem \<Rightarrow> Det \<Rightarrow> real \<Rightarrow> real \<Rightarrow> nat
     \<Rightarrow> (Det \<times> (Det \<times> real) list) \<times> Det list
     \<Rightarrow> error + (Det \<times> (Det \<times> real) list) \<times> Det list" where
  "traced_from ham sys det eps_max eps_min p_id tst =
     err_bind
       (if p_id < n_up sys then vec_read (get_occupied_orbs (up det)) p_id
        else vec_read (get_occupied_orbs (dn det)) (p_id - n_up sys))
       (\<lambda>p. err_bind (vec_read (orb_sym sys) p) (\<lambda>sym_p.
          for_each [0..<n_orbs sys]
            (traced_single ham sys det eps_max eps_min p_id p sym_p) tst))"

text \<open>The candidates that one call of \<open>find_connected_dets\<close> forms, in order.\<close>

definition formed_candidates ::
  "(Det \<Rightarrow> Det \<Rightarrow> real) \<Rightarrow> ChemSystem \<Rightarrow> Det \<Rightarrow> real \<Rightarrow> real \<Rightarrow> error + Det list" where
  "formed_candidates ham sys det eps_max_in eps_min_in =
     err_bind
       (for_each [0..<n_elecs sys]
          (traced_from ham sys det (window_max sys eps_max_in) (window_min sys eps_min_in))
          ((det, []), []))
       (\<lambda>tst. Inr (snd tst))"

text \<open>
  The invariant of the recorded run: the calls to the handler are the deliveries of the
  recorded candidates that are neither skipped nor outside the window, in order.
\<close>

definition traced_ok ::
  "(Det \<Rightarrow> Det \<Rightarrow> real) \<Rightarrow> ChemSystem \<Rightarrow> Det \<Rightarrow> real \<Rightarrow> real
     \<Rightarrow> (Det \<times> (Det \<times> real) list) \<times> Det list \<Rightarrow> bool" where
  "traced_ok ham sys det eps_max eps_min tst \<longleftrightarrow>
     snd (fst tst) =
       map (delivery ham sys det)
         (filter (\<lambda>c. \<not> time_sym_skip sys det c \<and>
                       \<not> out_of_window eps_max eps_min (ham det c)) (snd tst))"

section \<open>Example systems\<close>

text \<open>
  Concrete collaborators for the worked examples: the triangular pair index for
  \<open>combine2\<close>, integrals that tell their four indices apart, and a product table with
  the single irreducible representation \<open>1\<close>.
\<close>

definition tri_combine2 :: "nat \<Rightarrow> nat \<Rightarrow> nat" where
  "tri_combine2 a b = (if a > b then a * (a + 1) div 2 + b else b * (b + 1) div 2 + a)"

definition ex_get_2b :: "nat \<Rightarrow> nat \<Rightarrow> nat \<Rightarrow> nat \<Rightarrow> real" where
  "ex_get_2b i j k l = real (i + 2 * j + 3 * k + 5 * l)"

definition ex_sys :: "nat \<Rightarrow> ChemSystem" where
  "ex_sys n = \<lparr>n_up = 1, n_dn = 1, n_orbs = n, orb_sym = replicate n 1, time_sym = False, z = 1,
     point_group = NoPointGroup, get_n_syms = 1, get_product = (\<lambda>a b. 1),
     combine2 = tri_combine2, get_2b = ex_get_2b\<rparr>"

definition dooh_sys :: "nat \<Rightarrow> ChemSystem" where
  "dooh_sys n = (ex_sys n)\<lparr>point_group := Dooh\<rparr>"

text \<open>Three orbitals with time-reversal symmetry switched on and the sign \<open>zv\<close>.\<close>

definition ts_sys :: "int \<Rightarrow> ChemSystem" where
  "ts_sys zv = (ex_sys 3)\<lparr>time_sym := True, z := zv\<rparr>"

text \<open>Two orbitals with time-reversal symmetry switched on and the sign \<open>zv\<close>.\<close>

definition ts_sys2 :: "int \<Rightarrow> ChemSystem" where
  "ts_sys2 zv = (ex_sys 2)\<lparr>time_sym := True, z := zv\<rparr>"

text \<open>
  An element function with magnitude \<open>6/5\<close> towards the determinant with both electrons
  in orbital \<open>1\<close> and \<open>3/2\<close> towards every other one; \<open>\<surd>2\<close> lies between the two.
\<close>

definition ex_ham :: "Det \<Rightarrow> Det \<Rightarrow> real" where
  "ex_ham det_i det_j = (if up det_j = 2 \<and> dn det_j = 2 then 6 / 5 else 3 / 2)"

text \<open>The queue that the builder computes for three orbitals.\<close>

definition ex_queue3 :: HciState where
  "ex_queue3 = \<lparr>sym_orbs = [[], [0, 1, 2]],
        hci_queue =
          [[], [], [], [], [], [],
           [Hrs 14 2 5, Hrs 12 1 5, Hrs 9 2 4, Hrs 7 1 4], [], [], [],
           [Hrs 17 2 5, Hrs 15 1 5, Hrs 7 2 3, Hrs 5 1 3],
           [Hrs 18 2 5, Hrs 14 0 5, Hrs 8 2 3, Hrs 4 0 3], [], [], [],
           [Hrs 15 2 4, Hrs 13 1 4, Hrs 10 2 3, Hrs 8 1 3],
           [Hrs 16 2 4, Hrs 12 0 4, Hrs 11 2 3, Hrs 7 0 3],
           [Hrs 15 1 4, Hrs 13 0 4, Hrs 10 1 3, Hrs 8 0 3], [], [], [], [],
           [], []],
        n_entries = 48, max_hci_queue_elem = 18\<rparr>"

section \<open>Half determinants: basic facts\<close>

lemma has_bit: "has h k = bit h k"
  by (simp add: has_def bit_iff_odd)

lemma set_orb_bit: "set_orb h k = set_bit k h"
  by (simp add: set_orb_def has_bit set_bit_eq)

lemma has_set_orb: "has (set_orb h k) j \<longleftrightarrow> j = k \<or> has h j"
  by (auto simp add: set_orb_bit has_bit bit_set_bit_iff)

lemma unset_set_orb: "\<not> has h k \<Longrightarrow> unset_orb (set_orb h k) k = h"
proof -
  assume a: "\<not> has h k"
  have "has (set_orb h k) k" by (simp add: has_set_orb)
  moreover have "set_orb h k = h + 2 ^ k" using a by (simp add: set_orb_def)
  ultimately show ?thesis by (simp add: unset_orb_def)
qed

lemma has_less: "has h k \<Longrightarrow> k < h"
proof (rule ccontr)
  assume a: "has h k" and "\<not> k < h"
  then have "h \<le> k" by simp
  also have "k < 2 ^ k" by (rule less_exp)
  finally have "h div 2 ^ k = 0" by simp
  with a show False by (simp add: has_def)
qed

lemma finite_has: "finite {k. has h k}"
proof -
  have "{k. has h k} \<subseteq> {..<h}" using has_less by auto
  then show ?thesis using finite_subset by blast
qed

lemma n_occ_card: "n_occ h = card {k. has h k}"
proof -
  have "{x. has h x} \<inter> set [0..<h] = {k. has h k}" using has_less by auto
  then show ?thesis by (simp add: n_occ_def get_occupied_orbs_def distinct_length_filter)
qed

lemma n_occ_set_orb: "\<not> has h k \<Longrightarrow> n_occ (set_orb h k) = Suc (n_occ h)"
proof -
  assume a: "\<not> has h k"
  have "{j. has (set_orb h k) j} = insert k {j. has h j}" by (auto simp add: has_set_orb)
  then show ?thesis using a by (simp add: n_occ_card finite_has)
qed

section \<open>The extended basis: numbering and provenance\<close>

lemma add_pdet_inv: "pdets_inv g \<Longrightarrow> pdets_inv (add_pdet d g)"
proof (cases "pdet_to_id g d = None")
  case False
  assume "pdets_inv g"
  with False show ?thesis by (auto simp add: add_pdet_def)
next
  case True
  assume inv: "pdets_inv g"
  from True have "d \<notin> dom (pdet_to_id g)" by (simp add: domIff)
  with inv have fresh: "d \<notin> set (system_dets g)" by (simp add: pdets_inv_def)
  have idx: "\<forall>i < length (system_dets g). pdet_to_id g (system_dets g ! i) = Some i"
    using inv by (simp add: pdets_inv_def)
  have "\<forall>i < Suc (length (system_dets g)).
          ((pdet_to_id g)(d \<mapsto> length (system_dets g))) ((system_dets g @ [d]) ! i) = Some i"
  proof (intro allI impI)
    fix i assume "i < Suc (length (system_dets g))"
    then consider "i < length (system_dets g)" | "i = length (system_dets g)" by linarith
    then show "((pdet_to_id g)(d \<mapsto> length (system_dets g))) ((system_dets g @ [d]) ! i) = Some i"
    proof cases
      case 1
      then have "system_dets g ! i \<noteq> d" using fresh nth_mem by metis
      with 1 idx show ?thesis by (simp add: nth_append)
    next
      case 2
      then show ?thesis by simp
    qed
  qed
  with True inv fresh show ?thesis by (simp add: add_pdet_def pdets_inv_def)
qed

lemma add_pdet_dets:
  "set (system_dets (add_pdet d g)) \<subseteq> insert d (set (system_dets g))"
  by (auto simp add: add_pdet_def)

lemma add_pdet_mono: "set (system_dets g) \<subseteq> set (system_dets (add_pdet d g))"
  by (auto simp add: add_pdet_def)

lemma pdets_up_inv:
  assumes "k \<in> set [0..<norbs]" and "pdets_loop_inv norbs det g0 st"
  shows "pdets_loop_inv norbs det g0 (pdets_up k st)"
proof (cases st)
  case (Pair d g)
  with assms(2) have d: "d = det" and inv: "pdets_inv g"
    and sub: "set (system_dets g) \<subseteq> set (system_dets g0) \<union> {e. one_insertion norbs det e}"
    by (simp_all add: pdets_loop_inv_def)
  show ?thesis
  proof (cases "has (up det) k")
    case True
    with Pair d assms(2) show ?thesis by (simp add: pdets_up_def)
  next
    case False
    let ?e = "det\<lparr>up := set_orb (up det) k\<rparr>"
    have "one_insertion norbs det ?e"
      unfolding one_insertion_def using assms(1) False by blast
    with sub add_pdet_dets[of ?e g]
    have "set (system_dets (add_pdet ?e g)) \<subseteq> set (system_dets g0) \<union> {e. one_insertion norbs det e}"
      by auto
    with False Pair d inv show ?thesis
      by (simp add: pdets_up_def pdets_loop_inv_def Let_def unset_set_orb add_pdet_inv)
  qed
qed

lemma pdets_dn_inv:
  assumes "k \<in> set [0..<norbs]" and "pdets_loop_inv norbs det g0 st"
  shows "pdets_loop_inv norbs det g0 (pdets_dn k st)"
proof (cases st)
  case (Pair d g)
  with assms(2) have d: "d = det" and inv: "pdets_inv g"
    and sub: "set (system_dets g) \<subseteq> set (system_dets g0) \<union> {e. one_insertion norbs det e}"
    by (simp_all add: pdets_loop_inv_def)
  show ?thesis
  proof (cases "has (dn det) k")
    case True
    with Pair d assms(2) show ?thesis by (simp add: pdets_dn_def)
  next
    case False
    let ?e = "det\<lparr>dn := set_orb (dn det) k\<rparr>"
    have "one_insertion norbs det ?e"
      unfolding one_insertion_def using assms(1) False by blast
    with sub add_pdet_dets[of ?e g]
    have "set (system_dets (add_pdet ?e g)) \<subseteq> set (system_dets g0) \<union> {e. one_insertion norbs det e}"
      by auto
    with False Pair d inv show ?thesis
      by (simp add: pdets_dn_def pdets_loop_inv_def Let_def unset_set_orb add_pdet_inv)
  qed
qed

lemma pdets_det_inv:
  assumes "pdets_inv g"
  shows "pdets_inv (pdets_det norbs det g) \<and>
         set (system_dets (pdets_det norbs det g))
           \<subseteq> set (system_dets g) \<union> {e. one_insertion norbs det e}"
proof -
  have "pdets_loop_inv norbs det g (fold pdets_orb [0..<norbs] (det, g))"
  proof (rule fold_invariant[where Q = "\<lambda>k. k \<in> set [0..<norbs]"])
    show "pdets_loop_inv norbs det g (det, g)"
      using assms by (simp add: pdets_loop_inv_def)
  next
    fix k st
    assume "k \<in> set [0..<norbs]" and "pdets_loop_inv norbs det g st"
    then show "pdets_loop_inv norbs det g (pdets_orb k st)"
      unfolding pdets_orb_def by (intro pdets_dn_inv pdets_up_inv)
  qed simp
  then show ?thesis by (simp add: pdets_loop_inv_def pdets_det_def)
qed

lemma pdets_fold_inv:
  assumes "pdets_inv g"
  shows "pdets_inv (fold (pdets_det norbs) ds g) \<and>
         set (system_dets (fold (pdets_det norbs) ds g))
           \<subseteq> set (system_dets g) \<union> {e. \<exists>d \<in> set ds. one_insertion norbs d e}"
  using assms
proof (induction ds arbitrary: g)
  case Nil
  then show ?case by simp
next
  case (Cons d ds)
  from pdets_det_inv[OF Cons.prems, of norbs d]
  have 1: "pdets_inv (pdets_det norbs d g)"
    and 2: "set (system_dets (pdets_det norbs d g)) \<subseteq> set (system_dets g) \<union> {e. one_insertion norbs d e}"
    by simp_all
  from Cons.IH[OF 1] 2 show ?case by auto
qed

lemma pdets_inv_init: "pdets_inv green_init"
  by (simp add: pdets_inv_def green_init_def)

lemma one_insertion_n_elec: "one_insertion norbs d e \<Longrightarrow> n_elec e = Suc (n_elec d)"
  by (auto simp add: one_insertion_def n_elec_def n_occ_set_orb)

text \<open>
  Claim C8. Started from a newly constructed solver, \<open>construct_pdets\<close> leaves an extended
  basis without repetitions; the index map is defined exactly on the determinants of the
  basis and gives each the position at which it was appended (so the indices are dense and
  follow insertion order); \<open>n_pdets\<close> is the size of the basis and the coefficient
  vector consists of \<open>n_pdets\<close> zeros.
\<close>

theorem construct_pdets_dedup_index:
  "distinct (system_dets (construct_pdets norbs dets_store green_init)) \<and>
   dom (pdet_to_id (construct_pdets norbs dets_store green_init))
     = set (system_dets (construct_pdets norbs dets_store green_init)) \<and>
   (\<forall>i < length (system_dets (construct_pdets norbs dets_store green_init)).
      pdet_to_id (construct_pdets norbs dets_store green_init)
        (system_dets (construct_pdets norbs dets_store green_init) ! i) = Some i) \<and>
   n_pdets (construct_pdets norbs dets_store green_init)
     = length (system_dets (construct_pdets norbs dets_store green_init)) \<and>
   system_coefs (construct_pdets norbs dets_store green_init)
     = replicate (n_pdets (construct_pdets norbs dets_store green_init)) 0"
proof -
  have "pdets_inv (fold (pdets_det norbs) dets_store green_init)"
    using pdets_fold_inv[OF pdets_inv_init] by simp
  then show ?thesis
    by (simp add: construct_pdets_def Let_def pdets_inv_def)
qed

theorem construct_pdets_dedup_index_witness:
  "2 < length (system_dets (construct_pdets 2 [\<lparr>up = 1, dn = 2\<rparr>, \<lparr>up = 2, dn = 1\<rparr>] green_init)) \<and>
   system_dets (construct_pdets 2 [\<lparr>up = 1, dn = 2\<rparr>, \<lparr>up = 2, dn = 1\<rparr>] green_init) ! 2
     = \<lparr>up = 3, dn = 1\<rparr> \<and>
   pdet_to_id (construct_pdets 2 [\<lparr>up = 1, dn = 2\<rparr>, \<lparr>up = 2, dn = 1\<rparr>] green_init)
     \<lparr>up = 3, dn = 1\<rparr> = Some 2"
proof -
  let ?g = "construct_pdets 2 [\<lparr>up = 1, dn = 2\<rparr>, \<lparr>up = 2, dn = 1\<rparr>] green_init"
  have dets: "system_dets ?g
      = [\<lparr>up = 1, dn = 3\<rparr>, \<lparr>up = 3, dn = 2\<rparr>, \<lparr>up = 3, dn = 1\<rparr>, \<lparr>up = 2, dn = 3\<rparr>]"
    by (simp add: construct_pdets_def pdets_det_def pdets_orb_def pdets_up_def pdets_dn_def
        add_pdet_def green_init_def has_def set_orb_def unset_orb_def upt_rec Let_def)
  then have len: "2 < length (system_dets ?g)" by simp
  with construct_pdets_dedup_index[of 2 "[\<lparr>up = 1, dn = 2\<rparr>, \<lparr>up = 2, dn = 1\<rparr>]"]
  have "pdet_to_id ?g (system_dets ?g ! 2) = Some 2" by blast
  with dets len show ?thesis by simp
qed

text \<open>
  Claim C10, as amended. Every determinant of the extended basis comes from a primary
  determinant by setting one bit that was clear, in the up or in the down half, at an
  orbital below \<open>n_orbs\<close>; it has one electron more than that primary determinant. When the
  primary determinants all carry the same numbers of up and of down electrons, no primary
  determinant is in the extended basis.
\<close>

theorem construct_pdets_one_insertion:
  assumes "e \<in> set (system_dets (construct_pdets norbs dets_store green_init))"
  shows "(\<exists>d \<in> set dets_store. one_insertion norbs d e \<and> n_elec e = Suc (n_elec d)) \<and>
         ((\<forall>d \<in> set dets_store. n_occ (up d) = nup \<and> n_occ (dn d) = ndn)
            \<longrightarrow> e \<notin> set dets_store)"
proof -
  from assms have "e \<in> set (system_dets (fold (pdets_det norbs) dets_store green_init))"
    by (simp add: construct_pdets_def Let_def)
  with pdets_fold_inv[OF pdets_inv_init, of norbs dets_store]
  obtain d where d: "d \<in> set dets_store" "one_insertion norbs d e"
    by (auto simp add: green_init_def)
  then have ne: "n_elec e = Suc (n_elec d)" by (simp add: one_insertion_n_elec)
  have "e \<notin> set dets_store"
    if u: "\<forall>d \<in> set dets_store. n_occ (up d) = nup \<and> n_occ (dn d) = ndn"
  proof
    assume "e \<in> set dets_store"
    with u d(1) have "n_elec e = n_elec d" by (simp add: n_elec_def)
    with ne show False by simp
  qed
  with d ne show ?thesis by blast
qed

theorem construct_pdets_one_insertion_witness:
  "\<lparr>up = 3, dn = 1\<rparr>
     \<in> set (system_dets (construct_pdets 2 [\<lparr>up = 1, dn = 2\<rparr>, \<lparr>up = 2, dn = 1\<rparr>] green_init)) \<and>
   n_occ (up \<lparr>up = 1, dn = 2\<rparr>) = 1 \<and> n_occ (dn \<lparr>up = 1, dn = 2\<rparr>) = 1 \<and>
   n_occ (up \<lparr>up = 2, dn = 1\<rparr>) = 1 \<and> n_occ (dn \<lparr>up = 2, dn = 1\<rparr>) = 1 \<and>
   \<lparr>up = 3, dn = 1\<rparr> \<notin> set [\<lparr>up = 1, dn = 2\<rparr>, \<lparr>up = 2, dn = 1\<rparr>]"
proof -
  let ?ds = "[\<lparr>up = 1, dn = 2\<rparr>, \<lparr>up = 2, dn = 1\<rparr>]"
  have "system_dets (construct_pdets 2 ?ds green_init)
      = [\<lparr>up = 1, dn = 3\<rparr>, \<lparr>up = 3, dn = 2\<rparr>, \<lparr>up = 3, dn = 1\<rparr>, \<lparr>up = 2, dn = 3\<rparr>]"
    by (simp add: construct_pdets_def pdets_det_def pdets_orb_def pdets_up_def pdets_dn_def
        add_pdet_def green_init_def has_def set_orb_def unset_orb_def upt_rec Let_def)
  then have mem: "\<lparr>up = 3, dn = 1\<rparr> \<in> set (system_dets (construct_pdets 2 ?ds green_init))"
    by simp
  have occ: "n_occ 1 = 1" "n_occ 2 = 1"
    by (simp_all add: n_occ_def get_occupied_orbs_def has_def upt_rec)
  then have uni: "\<forall>d \<in> set ?ds. n_occ (up d) = 1 \<and> n_occ (dn d) = 1" by simp
  from construct_pdets_one_insertion[OF mem, of 1 1] uni
  have "\<lparr>up = 3, dn = 1\<rparr> \<notin> set ?ds" by blast
  with mem occ show ?thesis by simp
qed

text \<open>
  The claim as stated fails when the primary determinants differ in their electron counts,
  which \<open>construct_pdets\<close> does not check: a primary determinant with one electron more than
  another one can be an insertion into that one, and is then a member of the extended basis.
\<close>

theorem mixed_counts_counterexample:
  "\<lparr>up = 1, dn = 2\<rparr>
     \<in> set (system_dets (construct_pdets 2 [\<lparr>up = 1, dn = 0\<rparr>, \<lparr>up = 1, dn = 2\<rparr>] green_init)) \<and>
   \<lparr>up = 1, dn = 2\<rparr> \<in> set [\<lparr>up = 1, dn = 0\<rparr>, \<lparr>up = 1, dn = 2\<rparr>] \<and>
   pdet_to_id (construct_pdets 2 [\<lparr>up = 1, dn = 0\<rparr>, \<lparr>up = 1, dn = 2\<rparr>] green_init)
     \<lparr>up = 1, dn = 2\<rparr> = Some 2"
  by (simp add: construct_pdets_def pdets_det_def pdets_orb_def pdets_up_def pdets_dn_def
      add_pdet_def green_init_def has_def set_orb_def unset_orb_def upt_rec Let_def)

section \<open>The excitation queue: order, maximum and filtering\<close>

lemma for_each_invariant:
  assumes "for_each xs body st = Inr st'" and "P st"
    and "\<And>x s s'. x \<in> set xs \<Longrightarrow> P s \<Longrightarrow> body x s = Inr s' \<Longrightarrow> P s'"
  shows "P st'"
  using assms
proof (induction xs arbitrary: st)
  case Nil
  then show ?case by simp
next
  case (Cons x xs)
  from Cons.prems(1) obtain s1 where s1: "body x st = Inr s1" and rest: "for_each xs body s1 = Inr st'"
    by (auto split: sum.splits)
  have s1P: "P s1" using Cons.prems(3)[of x st s1] Cons.prems(2) s1 by simp
  show ?case
  proof (rule Cons.IH[OF rest s1P])
    fix y s s' assume "y \<in> set xs" "P s" "body y s = Inr s'"
    then show "P s'" using Cons.prems(3)[of y s s'] by simp
  qed
qed

lemma err_bind_Inr:
  "err_bind m f = Inr y \<longleftrightarrow> (\<exists>x. m = Inr x \<and> f x = Inr y)"
  by (cases m) (simp_all add: err_bind_def)

lemma vec_at_Inr: "vec_at xs i = Inr x \<longleftrightarrow> i < length xs \<and> x = xs ! i"
  by (auto simp add: vec_at_def)

lemma vec_read_Inr: "vec_read xs i = Inr x \<longleftrightarrow> i < length xs \<and> x = xs ! i"
  by (auto simp add: vec_read_def)

lemma entries_nth: "e \<in> entries qu \<longleftrightarrow> (\<exists>i < length qu. e \<in> set (qu ! i))"
proof -
  have "e \<in> entries qu \<longleftrightarrow> (\<exists>b \<in> set qu. e \<in> set b)" by (simp add: entries_def)
  also have "\<dots> \<longleftrightarrow> (\<exists>i < length qu. e \<in> set (qu ! i))"
    by (metis in_set_conv_nth)
  finally show ?thesis .
qed

lemma bucket_subset_entries: "pq < length qu \<Longrightarrow> set (qu ! pq) \<subseteq> entries qu"
  by (auto simp add: entries_nth)

lemma entries_update:
  "pq < length qu \<Longrightarrow> entries (qu[pq := b]) \<subseteq> entries qu \<union> set b"
  by (auto simp add: entries_nth nth_list_update split: if_splits)

lemma entries_update_superset:
  "pq < length qu \<Longrightarrow> set (qu ! pq) \<subseteq> set b \<Longrightarrow> entries qu \<subseteq> entries (qu[pq := b])"
proof
  fix e assume a: "pq < length qu" "set (qu ! pq) \<subseteq> set b" "e \<in> entries qu"
  then obtain i where i: "i < length qu" "e \<in> set (qu ! i)" by (auto simp add: entries_nth)
  show "e \<in> entries (qu[pq := b])"
  proof (cases "i = pq")
    case True
    with a i have "e \<in> set (qu[pq := b] ! pq)" by auto
    with a(1) show ?thesis unfolding entries_nth by (metis length_list_update)
  next
    case False
    with i have "e \<in> set (qu[pq := b] ! i)" by simp
    with i(1) show ?thesis unfolding entries_nth by (metis length_list_update)
  qed
qed

lemma get_hci_queue_elem_nonneg: "get_hci_queue_elem sys p q r s = Inr h \<Longrightarrow> 0 \<le> h"
  by (auto simp add: get_hci_queue_elem_def split: if_splits)

lemma push_entry_inv:
  assumes "push_entry pq e st = Inr st'" and "queue_inv True pq st" and "0 < H e"
  shows "queue_inv True pq st'"
proof -
  from assms(1) have pq: "pq < length (hci_queue st)"
    and st': "st' = st\<lparr>hci_queue := (hci_queue st)[pq := hci_queue st ! pq @ [e]]\<rparr>"
    by (auto simp add: push_entry_def err_bind_Inr vec_at_Inr)
  let ?qu = "hci_queue st" and ?qu' = "(hci_queue st)[pq := hci_queue st ! pq @ [e]]"
  have sub: "entries ?qu' \<subseteq> entries ?qu \<union> set (?qu ! pq @ [e])"
    using pq by (rule entries_update)
  have sup: "entries ?qu \<subseteq> entries ?qu'"
    using pq by (rule entries_update_superset) auto
  have 1: "\<forall>i < length ?qu'. \<not> (True \<and> i = pq) \<longrightarrow>
        sorted_desc (?qu' ! i) \<and> (\<forall>e \<in> set (?qu' ! i). H e \<le> max_hci_queue_elem st)"
    using assms(2) by (simp add: queue_inv_def)
  have 2: "\<forall>x \<in> entries ?qu'. 0 < H x"
  proof
    fix x assume "x \<in> entries ?qu'"
    with sub bucket_subset_entries[OF pq] have "x \<in> entries ?qu \<or> x = e" by auto
    with assms(2,3) show "0 < H x" by (auto simp add: queue_inv_def)
  qed
  have 3: "max_hci_queue_elem st = 0 \<or> max_hci_queue_elem st \<in> H ` entries ?qu'"
    using assms(2) sup by (auto simp add: queue_inv_def)
  from 1 2 3 show ?thesis by (simp add: queue_inv_def st')
qed

lemma same_spin_s_inv:
  assumes "same_spin_s sys p q pq r s st = Inr st'" and "queue_inv True pq st"
  shows "queue_inv True pq st'"
proof (cases "s < r")
  case True
  with assms show ?thesis by (simp add: same_spin_s_def)
next
  case False
  with assms(1) obtain h where h: "get_hci_queue_elem sys p q r s = Inr h"
    and k: "(if h = 0 then Inr st else push_entry pq (Hrs h r s) st) = Inr st'"
    by (auto simp add: same_spin_s_def err_bind_Inr)
  show ?thesis
  proof (cases "h = 0")
    case True
    with k assms(2) show ?thesis by simp
  next
    case False
    with get_hci_queue_elem_nonneg[OF h] have "0 < H (Hrs h r s)" by simp
    with k False assms(2) show ?thesis by (auto intro: push_entry_inv)
  qed
qed

lemma max_update_inv:
  assumes "queue_inv True pq st" and "h \<in> H ` entries (hci_queue st)"
  shows "queue_inv True pq (st\<lparr>n_entries := m, max_hci_queue_elem := max (max_hci_queue_elem st) h\<rparr>)"
proof -
  have "max (max_hci_queue_elem st) h = h \<or> max (max_hci_queue_elem st) h = max_hci_queue_elem st"
    by (simp add: max_def)
  with assms have "max (max_hci_queue_elem st) h \<in> H ` entries (hci_queue st) \<or>
     max (max_hci_queue_elem st) h = 0"
    unfolding queue_inv_def by metis
  then have 3: "max (max_hci_queue_elem st) h = 0 \<or>
     max (max_hci_queue_elem st) h \<in> H ` entries (hci_queue st)" by blast
  have 1: "\<forall>i < length (hci_queue st). \<not> (True \<and> i = pq) \<longrightarrow>
      sorted_desc (hci_queue st ! i) \<and>
      (\<forall>e \<in> set (hci_queue st ! i). H e \<le> max (max_hci_queue_elem st) h)"
  proof (intro allI impI)
    fix i assume "i < length (hci_queue st)" "\<not> (True \<and> i = pq)"
    with assms(1) have "sorted_desc (hci_queue st ! i)"
      and "\<forall>e \<in> set (hci_queue st ! i). H e \<le> max_hci_queue_elem st"
      by (simp_all add: queue_inv_def)
    then show "sorted_desc (hci_queue st ! i) \<and>
      (\<forall>e \<in> set (hci_queue st ! i). H e \<le> max (max_hci_queue_elem st) h)"
      by (auto intro: max.coboundedI1)
  qed
  have 2: "\<forall>e \<in> entries (hci_queue st). 0 < H e" using assms(1) by (simp add: queue_inv_def)
  from 1 2 3 show ?thesis by (simp add: queue_inv_def)
qed

lemma push_entry_mem:
  "push_entry pq e st = Inr st' \<Longrightarrow> e \<in> entries (hci_queue st')"
  by (auto simp add: push_entry_def err_bind_Inr vec_at_Inr entries_nth intro!: exI[of _ pq])

lemma opp_spin_s_inv:
  assumes "opp_spin_s sys p q pq r s st = Inr st'" and "queue_inv True pq st"
  shows "queue_inv True pq st'"
proof -
  from assms(1) obtain h where h: "get_hci_queue_elem sys p q r (s + n_orbs sys) = Inr h"
    and k: "(if h = 0 then Inr st
             else err_bind (push_entry pq (Hrs h r (s + n_orbs sys)) st) (\<lambda>st1.
               Inr (st1\<lparr>n_entries := n_entries st1 + 1,
                  max_hci_queue_elem := max (max_hci_queue_elem st1) h\<rparr>))) = Inr st'"
    by (auto simp add: opp_spin_s_def err_bind_Inr)
  show ?thesis
  proof (cases "h = 0")
    case True
    with k assms(2) show ?thesis by simp
  next
    case False
    with k obtain st1 where p: "push_entry pq (Hrs h r (s + n_orbs sys)) st = Inr st1"
      and st': "st' = st1\<lparr>n_entries := n_entries st1 + 1,
                  max_hci_queue_elem := max (max_hci_queue_elem st1) h\<rparr>"
      by (auto simp add: err_bind_Inr)
    from False get_hci_queue_elem_nonneg[OF h] have "0 < H (Hrs h r (s + n_orbs sys))" by simp
    with p assms(2) have inv1: "queue_inv True pq st1" by (rule push_entry_inv)
    from push_entry_mem[OF p] have "h \<in> H ` entries (hci_queue st1)" by force
    with inv1 show ?thesis unfolding st' by (rule max_update_inv)
  qed
qed

lemma same_spin_r_inv:
  assumes "same_spin_r sys p q pq sym_q r st = Inr st'" and "queue_inv True pq st"
  shows "queue_inv True pq st'"
proof -
  from assms(1) obtain orbs where "for_each orbs (same_spin_s sys p q pq r) st = Inr st'"
    by (auto simp add: same_spin_r_def err_bind_Inr split: if_splits)
  then show ?thesis using assms(2)
    by (rule for_each_invariant) (rule same_spin_s_inv)
qed

lemma opp_spin_r_inv:
  assumes "opp_spin_r sys p q pq sym_q r st = Inr st'" and "queue_inv True pq st"
  shows "queue_inv True pq st'"
proof -
  from assms(1) obtain orbs where "for_each orbs (opp_spin_s sys p q pq r) st = Inr st'"
    by (auto simp add: opp_spin_r_def err_bind_Inr split: if_splits)
  then show ?thesis using assms(2)
    by (rule for_each_invariant) (rule opp_spin_s_inv)
qed

lemma queue_inv_weaken: "queue_inv False pq st \<Longrightarrow> queue_inv True pq' st"
  by (simp add: queue_inv_def)

lemma queue_inv_False: "queue_inv False pq st \<Longrightarrow> queue_inv False pq' st"
  by (simp add: queue_inv_def)

lemma sorted_desc_sort_desc: "sorted_desc (sort_desc xs)"
proof -
  have "sorted (map (\<lambda>e. - H e) (sort_key (\<lambda>e. - H e) xs))" by (rule sorted_sort_key)
  then show ?thesis by (simp add: sorted_desc_def sort_desc_def sorted_map)
qed

lemma set_sort_desc: "set (sort_desc xs) = set xs"
  by (simp add: sort_desc_def)

lemma sorted_desc_hd: "sorted_desc xs \<Longrightarrow> e \<in> set xs \<Longrightarrow> H e \<le> H (hd xs)"
  by (cases xs) (auto simp add: sorted_desc_def)

lemma finish_bucket_inv:
  assumes "finish_bucket pq st = Inr st'" and "queue_inv True pq st"
  shows "queue_inv False pq st'"
proof -
  from assms(1) have pq: "pq < length (hci_queue st)"
    by (auto simp add: finish_bucket_def err_bind_Inr vec_at_Inr)
  let ?b = "hci_queue st ! pq"
  show ?thesis
  proof (cases "?b = []")
    case True
    with assms(1) pq have "st' = st"
      by (auto simp add: finish_bucket_def err_bind_Inr vec_at_Inr)
    moreover have "sorted_desc ?b" "\<forall>e \<in> set ?b. H e \<le> max_hci_queue_elem st"
      using True by (simp_all add: sorted_desc_def)
    ultimately show ?thesis using assms(2) unfolding queue_inv_def by metis
  next
    case False
    let ?s = "sort_desc ?b"
    let ?qu = "hci_queue st" and ?qu' = "(hci_queue st)[pq := sort_desc (hci_queue st ! pq)]"
    let ?mx = "max (max_hci_queue_elem st) (H (hd ?s))"
    from False assms(1) pq have st': "st' = st\<lparr>hci_queue := ?qu',
        n_entries := n_entries st + length ?s, max_hci_queue_elem := ?mx\<rparr>"
      by (auto simp add: finish_bucket_def err_bind_Inr vec_at_Inr Let_def)
    have ent: "entries ?qu' = entries ?qu"
    proof
      show "entries ?qu' \<subseteq> entries ?qu"
        using entries_update[OF pq, of ?s] bucket_subset_entries[OF pq]
        by (auto simp add: set_sort_desc)
      show "entries ?qu \<subseteq> entries ?qu'"
        using pq by (rule entries_update_superset) (simp add: set_sort_desc)
    qed
    have hd_in: "hd ?s \<in> set ?b"
      using False by (metis hd_in_set set_sort_desc set_empty)
    then have hd_ent: "H (hd ?s) \<in> H ` entries ?qu"
      using bucket_subset_entries[OF pq] by blast
    have 1: "\<forall>i < length ?qu'. sorted_desc (?qu' ! i) \<and> (\<forall>e \<in> set (?qu' ! i). H e \<le> ?mx)"
    proof (intro allI impI)
      fix i assume i: "i < length ?qu'"
      show "sorted_desc (?qu' ! i) \<and> (\<forall>e \<in> set (?qu' ! i). H e \<le> ?mx)"
      proof (cases "i = pq")
        case True
        have "\<forall>e \<in> set ?s. H e \<le> H (hd ?s)"
          using sorted_desc_hd[OF sorted_desc_sort_desc] by blast
        then have "\<forall>e \<in> set ?s. H e \<le> ?mx" by (auto simp add: max_def)
        with True pq show ?thesis by (simp add: sorted_desc_sort_desc)
      next
        case False
        with i assms(2) have "sorted_desc (?qu ! i) \<and> (\<forall>e \<in> set (?qu ! i). H e \<le> max_hci_queue_elem st)"
          by (simp add: queue_inv_def)
        with False show ?thesis by (auto simp add: max_def)
      qed
    qed
    have 2: "\<forall>x \<in> entries ?qu'. 0 < H x" using assms(2) ent by (simp add: queue_inv_def)
    have "?mx = H (hd ?s) \<or> ?mx = max_hci_queue_elem st" by (simp add: max_def)
    with hd_ent assms(2) have 3: "?mx = 0 \<or> ?mx \<in> H ` entries ?qu'"
      unfolding ent queue_inv_def by metis
    from 1 2 3 show ?thesis by (simp add: queue_inv_def st')
  qed
qed

lemma same_spin_q_inv:
  assumes "same_spin_q sys p sym_p q st = Inr st'" and "queue_inv False 0 st"
  shows "queue_inv False 0 st'"
proof -
  let ?pq = "combine2 sys p q"
  from assms(1) obtain sq st1 where
    l: "for_each [0..<n_orbs sys] (same_spin_r sys p q ?pq (get_product sys sym_p sq)) st = Inr st1"
    and f: "finish_bucket ?pq st1 = Inr st'"
    by (auto simp add: same_spin_q_def Let_def err_bind_Inr)
  from assms(2) have "queue_inv True ?pq st" by (rule queue_inv_weaken)
  with l have "queue_inv True ?pq st1"
    by (rule for_each_invariant) (rule same_spin_r_inv)
  with f have "queue_inv False ?pq st'" by (rule finish_bucket_inv)
  then show ?thesis by (rule queue_inv_False)
qed

lemma opp_spin_q_inv:
  assumes "opp_spin_q sys p sym_p q st = Inr st'" and "queue_inv False 0 st"
  shows "queue_inv False 0 st'"
proof -
  let ?pq = "combine2 sys p q"
  from assms(1) obtain sq st1 where
    l: "for_each [0..<n_orbs sys] (opp_spin_r sys p q ?pq (get_product sys sym_p sq)) st = Inr st1"
    and f: "finish_bucket ?pq st1 = Inr st'"
    by (auto simp add: opp_spin_q_def Let_def err_bind_Inr)
  from assms(2) have "queue_inv True ?pq st" by (rule queue_inv_weaken)
  with l have "queue_inv True ?pq st1"
    by (rule for_each_invariant) (rule opp_spin_r_inv)
  with f have "queue_inv False ?pq st'" by (rule finish_bucket_inv)
  then show ?thesis by (rule queue_inv_False)
qed

lemma same_spin_p_inv:
  assumes "same_spin_p sys p st = Inr st'" and "queue_inv False 0 st"
  shows "queue_inv False 0 st'"
proof -
  from assms(1) obtain sym_p where
    "for_each [p + 1..<n_orbs sys] (same_spin_q sys p sym_p) st = Inr st'"
    by (auto simp add: same_spin_p_def err_bind_Inr)
  then show ?thesis using assms(2)
    by (rule for_each_invariant) (rule same_spin_q_inv)
qed

lemma opp_spin_p_inv:
  assumes "opp_spin_p sys p st = Inr st'" and "queue_inv False 0 st"
  shows "queue_inv False 0 st'"
proof -
  from assms(1) obtain sym_p where
    "for_each [n_orbs sys + p..<n_orbs sys * 2] (opp_spin_q sys p sym_p) st = Inr st'"
    by (auto simp add: opp_spin_p_def err_bind_Inr)
  then show ?thesis using assms(2)
    by (rule for_each_invariant) (rule opp_spin_q_inv)
qed

lemma add_sym_orb_queue:
  "add_sym_orb sys orb st = Inr st' \<Longrightarrow> hci_queue st' = hci_queue st"
  by (auto simp add: add_sym_orb_def err_bind_Inr split: if_splits)

lemma entries_replicate: "entries (replicate m []) = {}"
  by (auto simp add: entries_def)

lemma setup_hci_queue_inv:
  assumes "setup_hci_queue sys hci_init = Inr st"
  shows "queue_inv False 0 st"
proof -
  let ?st0 = "hci_init\<lparr>sym_orbs := resize (get_n_syms sys + 1) (sym_orbs hci_init)\<rparr>"
  from assms obtain st1 st2 where
    a: "for_each [0..<n_orbs sys] (add_sym_orb sys) ?st0 = Inr st1"
    and b: "for_each [0..<n_orbs sys] (same_spin_p sys)
               (st1\<lparr>n_entries := 0, max_hci_queue_elem := 0,
                    hci_queue :=
                      resize (combine2 sys (n_orbs sys) (2 * n_orbs sys)) (hci_queue st1)\<rparr>) = Inr st2"
    and c: "for_each [0..<n_orbs sys] (opp_spin_p sys) st2 = Inr st"
    by (auto simp add: setup_hci_queue_def err_bind_Inr)
  have "hci_queue st1 = []"
    using a by (rule for_each_invariant) (simp_all add: hci_init_def add_sym_orb_queue)
  then have "queue_inv False 0 (st1\<lparr>n_entries := 0, max_hci_queue_elem := 0,
                    hci_queue :=
                      resize (combine2 sys (n_orbs sys) (2 * n_orbs sys)) (hci_queue st1)\<rparr>)"
    by (simp add: queue_inv_def resize_def entries_replicate sorted_desc_def)
  with b have "queue_inv False 0 st2"
    by (rule for_each_invariant) (rule same_spin_p_inv)
  with c show ?thesis
    by (rule for_each_invariant) (rule opp_spin_p_inv)
qed

lemma finite_entries: "finite (entries qu)"
  by (simp add: entries_def)

text \<open>
  Claim C1. When \<open>setup_hci_queue\<close>, run on a newly constructed system, returns, every
  bucket of the queue is in non-increasing order of \<open>H\<close>, and \<open>max_hci_queue_elem\<close> is
  the largest \<open>H\<close> among the entries of all buckets, or zero when there is no entry.
\<close>

theorem setup_hci_queue_sorted_max:
  assumes "setup_hci_queue sys hci_init = Inr st"
  shows "(\<forall>b \<in> set (hci_queue st). sorted_desc b) \<and>
         (entries (hci_queue st) = {} \<longrightarrow> max_hci_queue_elem st = 0) \<and>
         (entries (hci_queue st) \<noteq> {} \<longrightarrow>
            max_hci_queue_elem st = Max (H ` entries (hci_queue st)))"
proof -
  from assms have inv: "queue_inv False 0 st" by (rule setup_hci_queue_inv)
  then have 1: "\<forall>b \<in> set (hci_queue st). sorted_desc b"
    by (auto simp add: queue_inv_def in_set_conv_nth)
  from inv have 2: "entries (hci_queue st) = {} \<longrightarrow> max_hci_queue_elem st = 0"
    by (auto simp add: queue_inv_def)
  have 3: "max_hci_queue_elem st = Max (H ` entries (hci_queue st))"
    if ne: "entries (hci_queue st) \<noteq> {}"
  proof -
    from inv have ub: "\<forall>e \<in> entries (hci_queue st). H e \<le> max_hci_queue_elem st"
      by (auto simp add: queue_inv_def entries_nth)
    from ne obtain e where e: "e \<in> entries (hci_queue st)" by blast
    with inv have "0 < H e" by (simp add: queue_inv_def)
    with ub e have "max_hci_queue_elem st \<noteq> 0" by force
    with inv have "max_hci_queue_elem st \<in> H ` entries (hci_queue st)"
      by (simp add: queue_inv_def)
    with ub show ?thesis
      by (intro Max_eqI[symmetric]) (auto simp add: finite_entries)
  qed
  from 1 2 3 show ?thesis by blast
qed

lemmas hci_eval = setup_hci_queue_def hci_init_def resize_def add_sym_orb_def same_spin_p_def
  same_spin_q_def same_spin_r_def same_spin_s_def opp_spin_p_def opp_spin_q_def opp_spin_r_def
  opp_spin_s_def finish_bucket_def push_entry_def sort_desc_def get_hci_queue_elem_def
  get_two_body_double_def two_body_same_def diff_def get_occupied_orbs_def has_def set_orb_def
  vec_read_def vec_at_def err_bind_def ex_sys_def tri_combine2_def ex_get_2b_def upt_rec Let_def

lemma ex_sys_3_queue: "setup_hci_queue (ex_sys 3) hci_init = Inr ex_queue3"
  unfolding ex_queue3_def
  apply (simp add: hci_eval)
  apply (simp add: numeral_eq_Suc)
  done

theorem setup_hci_queue_sorted_max_witness:
  "setup_hci_queue (ex_sys 3) hci_init = Inr ex_queue3 \<and>
   sorted_desc [Hrs 14 2 5, Hrs 12 1 5, Hrs 9 2 4, Hrs 7 1 4] \<and>
   max_hci_queue_elem ex_queue3 = Max (H ` entries (hci_queue ex_queue3)) \<and>
   max_hci_queue_elem ex_queue3 = 18"
proof -
  note t = setup_hci_queue_sorted_max[OF ex_sys_3_queue]
  have "[Hrs 14 2 5, Hrs 12 1 5, Hrs 9 2 4, Hrs 7 1 4] \<in> set (hci_queue ex_queue3)"
    by (simp add: ex_queue3_def)
  with t have 1: "sorted_desc [Hrs 14 2 5, Hrs 12 1 5, Hrs 9 2 4, Hrs 7 1 4]" by blast
  have "Hrs 14 2 5 \<in> entries (hci_queue ex_queue3)"
    by (simp add: ex_queue3_def entries_def)
  then have "entries (hci_queue ex_queue3) \<noteq> {}" by blast
  with t have 2: "max_hci_queue_elem ex_queue3 = Max (H ` entries (hci_queue ex_queue3))"
    by blast
  have 3: "max_hci_queue_elem ex_queue3 = 18" by (simp add: ex_queue3_def)
  from ex_sys_3_queue 1 2 3 show ?thesis by simp
qed

lemma degenerate_elem: "degenerate p q r s \<Longrightarrow> get_hci_queue_elem sys p q r s = Inr 0"
  by (simp add: degenerate_def get_hci_queue_elem_def)

lemma zero_elem_same:
  "get_hci_queue_elem sys p q r s = Inr 0 \<Longrightarrow> same_spin_s sys p q pq r s st = Inr st"
  by (simp add: same_spin_s_def err_bind_def)

lemma zero_elem_opp:
  "get_hci_queue_elem sys p q r (s + n_orbs sys) = Inr 0 \<Longrightarrow>
   opp_spin_s sys p q pq r s st = Inr st"
  by (simp add: opp_spin_s_def err_bind_def)

text \<open>
  Claim C9. For a combination with \<open>p = q\<close>, \<open>r = s\<close> or an origin equal to a
  destination, \<open>get_hci_queue_elem\<close> returns the magnitude zero without an error; on a
  zero magnitude the loop bodies of both halves of the builder return the state as it
  was, again without an error, so no entry is made; and no entry of the finished queue has
  magnitude zero.
\<close>

theorem degenerate_and_zero_filtered:
  "(degenerate p q r s \<longrightarrow> get_hci_queue_elem sys p q r s = Inr 0) \<and>
   (get_hci_queue_elem sys p q r s = Inr 0 \<longrightarrow> same_spin_s sys p q pq r s st = Inr st) \<and>
   (get_hci_queue_elem sys p q r (s + n_orbs sys) = Inr 0 \<longrightarrow>
      opp_spin_s sys p q pq r s st = Inr st) \<and>
   (setup_hci_queue sys hci_init = Inr st' \<longrightarrow>
      (\<forall>e \<in> entries (hci_queue st'). H e \<noteq> 0))"
proof -
  have "\<forall>e \<in> entries (hci_queue st'). H e \<noteq> 0" if "setup_hci_queue sys hci_init = Inr st'"
    using setup_hci_queue_inv[OF that] by (auto simp add: queue_inv_def)
  then show ?thesis
    using degenerate_elem zero_elem_same zero_elem_opp by blast
qed

theorem degenerate_and_zero_filtered_witness:
  "degenerate 0 4 1 4 \<and>
   get_hci_queue_elem (ex_sys 3) 0 4 1 4 = Inr 0 \<and>
   same_spin_s (ex_sys 3) 0 4 10 1 4 ex_queue3 = Inr ex_queue3 \<and>
   get_hci_queue_elem (ex_sys 3) 0 4 1 (1 + n_orbs (ex_sys 3)) = Inr 0 \<and>
   opp_spin_s (ex_sys 3) 0 4 10 1 1 ex_queue3 = Inr ex_queue3 \<and>
   setup_hci_queue (ex_sys 3) hci_init = Inr ex_queue3 \<and>
   Hrs 14 2 5 \<in> entries (hci_queue ex_queue3) \<and> H (Hrs 14 2 5) \<noteq> 0"
proof -
  note t = degenerate_and_zero_filtered[of 0 4 1 4 "ex_sys 3" 10 ex_queue3 ex_queue3]
  note u = degenerate_and_zero_filtered[of 0 4 1 1 "ex_sys 3" 10 ex_queue3 ex_queue3]
  have d: "degenerate 0 4 1 4" by (simp add: degenerate_def)
  with t have e: "get_hci_queue_elem (ex_sys 3) 0 4 1 4 = Inr 0" by blast
  with t have s: "same_spin_s (ex_sys 3) 0 4 10 1 4 ex_queue3 = Inr ex_queue3" by blast
  have e': "get_hci_queue_elem (ex_sys 3) 0 4 1 (1 + n_orbs (ex_sys 3)) = Inr 0"
    using e by (simp add: ex_sys_def)
  with u have o: "opp_spin_s (ex_sys 3) 0 4 10 1 1 ex_queue3 = Inr ex_queue3" by blast
  have m: "Hrs 14 2 5 \<in> entries (hci_queue ex_queue3)"
    by (simp add: ex_queue3_def entries_def)
  with t ex_sys_3_queue have "H (Hrs 14 2 5) \<noteq> 0" by blast
  with d e s e' o m ex_sys_3_queue show ?thesis by simp
qed

lemma for_each_total:
  assumes "P st"
    and "\<And>x s. x \<in> set xs \<Longrightarrow> P s \<Longrightarrow> \<exists>s'. body x s = Inr s' \<and> P s'"
  shows "\<exists>st'. for_each xs body st = Inr st' \<and> P st'"
  using assms
proof (induction xs arbitrary: st)
  case Nil
  then show ?case by simp
next
  case (Cons x xs)
  from Cons.prems(2)[of x st] Cons.prems(1)
  obtain s1 where s1: "body x st = Inr s1" "P s1" by auto
  have "\<exists>st'. for_each xs body s1 = Inr st' \<and> P st'"
  proof (rule Cons.IH[OF s1(2)])
    fix y s assume "y \<in> set xs" "P s"
    then show "\<exists>s'. body y s = Inr s' \<and> P s'" using Cons.prems(2)[of y s] by simp
  qed
  with s1 show ?case by simp
qed

lemma add_sym_orbs_ok:
  assumes "length (orb_sym sys) = n_orbs sys"
    and "\<forall>x \<in> set (orb_sym sys). x \<le> get_n_syms sys"
    and "length (sym_orbs st) = get_n_syms sys + 1"
  shows "\<exists>st'. for_each [0..<n_orbs sys] (add_sym_orb sys) st = Inr st'"
proof -
  have "\<exists>st'. for_each [0..<n_orbs sys] (add_sym_orb sys) st = Inr st' \<and>
     length (sym_orbs st') = get_n_syms sys + 1"
  proof (rule for_each_total[where P = "\<lambda>s. length (sym_orbs s) = get_n_syms sys + 1"])
    show "length (sym_orbs st) = get_n_syms sys + 1" by fact
  next
    fix x and s :: HciState
    assume x: "x \<in> set [0..<n_orbs sys]" and s: "length (sym_orbs s) = get_n_syms sys + 1"
    from x assms(1) have "x < length (orb_sym sys)" by simp
    moreover from this assms(2) have "orb_sym sys ! x \<le> get_n_syms sys" by simp
    ultimately show "\<exists>s'. add_sym_orb sys x s = Inr s' \<and> length (sym_orbs s') = get_n_syms sys + 1"
      using s by (simp add: add_sym_orb_def err_bind_def vec_read_def)
  qed
  then show ?thesis by blast
qed

lemma same_spin_exit:
  assumes "point_group sys = Dooh" and "2 \<le> n_orbs sys" and "length (orb_sym sys) = n_orbs sys"
  shows "for_each [0..<n_orbs sys] (same_spin_p sys) st = Inl (ProcessExit 0)"
proof -
  have r: "same_spin_r sys 0 1 pq sq 0 st = Inl (ProcessExit 0)" for pq sq
    using assms by (simp add: same_spin_r_def err_bind_def vec_read_def)
  have q: "same_spin_q sys 0 sp 1 st = Inl (ProcessExit 0)" for sp
    using assms r by (simp add: same_spin_q_def Let_def err_bind_def vec_read_def upt_conv_Cons)
  have "[0 + 1..<n_orbs sys] = 1 # [2..<n_orbs sys]"
    using assms(2) by (simp add: upt_conv_Cons numeral_2_eq_2)
  then have p: "same_spin_p sys 0 st = Inl (ProcessExit 0)"
    using assms q by (simp add: same_spin_p_def err_bind_def vec_read_def)
  have "[0..<n_orbs sys] = 0 # [1..<n_orbs sys]" using assms(2) by (simp add: upt_conv_Cons)
  with p show ?thesis by simp
qed

lemma opp_spin_exit:
  assumes "point_group sys = Dooh" and "n_orbs sys = 1" and "length (orb_sym sys) = n_orbs sys"
  shows "for_each [0..<n_orbs sys] (opp_spin_p sys) st = Inl (ProcessExit 0)"
proof -
  have r: "opp_spin_r sys 0 1 pq sq 0 st = Inl (ProcessExit 0)" for pq sq
    using assms by (simp add: opp_spin_r_def err_bind_def vec_read_def)
  have q: "opp_spin_q sys 0 sp 1 st = Inl (ProcessExit 0)" for sp
    using assms r by (simp add: opp_spin_q_def Let_def err_bind_def vec_read_def)
  have "[n_orbs sys + 0..<n_orbs sys * 2] = [1]"
    using assms(2) by (simp add: upt_rec)
  then have p: "opp_spin_p sys 0 st = Inl (ProcessExit 0)"
    using assms q by (simp add: opp_spin_p_def err_bind_def vec_read_def)
  with assms(2) show ?thesis by simp
qed

lemma same_spin_one:
  assumes "n_orbs sys = 1" and "length (orb_sym sys) = n_orbs sys"
  shows "for_each [0..<n_orbs sys] (same_spin_p sys) st = Inr st"
  using assms by (simp add: same_spin_p_def err_bind_def vec_read_def)

text \<open>
  Claim C3, as amended. With the point group \<open>Dooh\<close> and at least one orbital (each
  orbital carrying a symmetry label within the table), the builder ends the process by
  \<open>exit(0)\<close>: status zero, no message and no queue. Without orbitals it returns
  normally, with an empty queue.
\<close>

theorem dooh_exits_silently:
  assumes "point_group sys = Dooh"
  shows "(0 < n_orbs sys \<and> length (orb_sym sys) = n_orbs sys \<and>
          (\<forall>x \<in> set (orb_sym sys). x \<le> get_n_syms sys)
            \<longrightarrow> setup_hci_queue sys hci_init = Inl (ProcessExit 0)) \<and>
         (n_orbs sys = 0 \<longrightarrow> (\<exists>st. setup_hci_queue sys hci_init = Inr st \<and>
            entries (hci_queue st) = {} \<and> max_hci_queue_elem st = 0))"
proof -
  have 1: "setup_hci_queue sys hci_init = Inl (ProcessExit 0)"
    if pos: "0 < n_orbs sys" and len: "length (orb_sym sys) = n_orbs sys"
      and rng: "\<forall>x \<in> set (orb_sym sys). x \<le> get_n_syms sys"
  proof -
    let ?st0 = "hci_init\<lparr>sym_orbs := resize (get_n_syms sys + 1) (sym_orbs hci_init)\<rparr>"
    have "length (sym_orbs ?st0) = get_n_syms sys + 1"
      by (simp add: resize_def hci_init_def)
    with add_sym_orbs_ok[OF len rng] obtain st1 where
      st1: "for_each [0..<n_orbs sys] (add_sym_orb sys) ?st0 = Inr st1" by blast
    show ?thesis
    proof (cases "n_orbs sys = 1")
      case True
      note ss = same_spin_one[OF True len] and os = opp_spin_exit[OF assms True len]
      show ?thesis
        using st1 by (simp add: setup_hci_queue_def err_bind_def ss os)
    next
      case False
      with pos have "2 \<le> n_orbs sys" by simp
      note ss = same_spin_exit[OF assms this len]
      show ?thesis
        using st1 by (simp add: setup_hci_queue_def err_bind_def ss)
    qed
  qed
  have 2: "\<exists>st. setup_hci_queue sys hci_init = Inr st \<and>
            entries (hci_queue st) = {} \<and> max_hci_queue_elem st = 0" if "n_orbs sys = 0"
    using that by (simp add: setup_hci_queue_def err_bind_def resize_def hci_init_def
        entries_replicate)
  from 1 2 show ?thesis by blast
qed

text \<open>
  The claim as stated fails: with one orbital the process exits with status zero, which is
  not a reported failure, and without orbitals the builder succeeds.
\<close>

theorem dooh_exit_counterexample:
  "setup_hci_queue (dooh_sys 1) hci_init = Inl (ProcessExit 0) \<and>
   \<not> unsupported_symmetry_failure (setup_hci_queue (dooh_sys 1) hci_init) \<and>
   setup_hci_queue (dooh_sys 0) hci_init
     = Inr \<lparr>sym_orbs = [[], []], hci_queue = [], n_entries = 0, max_hci_queue_elem = 0\<rparr>"
proof -
  have 1: "setup_hci_queue (dooh_sys 1) hci_init = Inl (ProcessExit 0)"
    by (simp add: hci_eval dooh_sys_def)
  have 2: "setup_hci_queue (dooh_sys 0) hci_init
     = Inr \<lparr>sym_orbs = [[], []], hci_queue = [], n_entries = 0, max_hci_queue_elem = 0\<rparr>"
    by (simp add: hci_eval dooh_sys_def numeral_eq_Suc)
  from 1 2 show ?thesis by (simp add: unsupported_symmetry_failure_def)
qed

theorem dooh_exits_silently_witness:
  "point_group (dooh_sys 2) = Dooh \<and> 0 < n_orbs (dooh_sys 2) \<and>
   length (orb_sym (dooh_sys 2)) = n_orbs (dooh_sys 2) \<and>
   orb_sym (dooh_sys 2) = [1, 1] \<and> get_n_syms (dooh_sys 2) = 1 \<and>
   setup_hci_queue (dooh_sys 2) hci_init = Inl (ProcessExit 0) \<and>
   point_group (dooh_sys 0) = Dooh \<and> n_orbs (dooh_sys 0) = 0 \<and>
   setup_hci_queue (dooh_sys 0) hci_init \<noteq> Inl (ProcessExit 0)"
proof -
  have a: "point_group (dooh_sys 2) = Dooh" "0 < n_orbs (dooh_sys 2)"
    "length (orb_sym (dooh_sys 2)) = n_orbs (dooh_sys 2)"
    "orb_sym (dooh_sys 2) = [1, 1]" "get_n_syms (dooh_sys 2) = 1"
    by (simp_all add: dooh_sys_def ex_sys_def numeral_eq_Suc)
  then have "\<forall>x \<in> set (orb_sym (dooh_sys 2)). x \<le> get_n_syms (dooh_sys 2)" by simp
  with dooh_exits_silently[OF a(1)] a
  have b: "setup_hci_queue (dooh_sys 2) hci_init = Inl (ProcessExit 0)" by blast
  have c: "point_group (dooh_sys 0) = Dooh" "n_orbs (dooh_sys 0) = 0"
    by (simp_all add: dooh_sys_def ex_sys_def)
  with dooh_exits_silently[OF c(1)]
  obtain st where "setup_hci_queue (dooh_sys 0) hci_init = Inr st" by blast
  then have d: "setup_hci_queue (dooh_sys 0) hci_init \<noteq> Inl (ProcessExit 0)" by simp
  from a b c d show ?thesis by simp
qed

section \<open>Connected determinants: window and time reversal\<close>

lemmas fcd_eval = find_connected_dets_def find_connected_dets_with_def excite_from_def
  excite_single_def delivery_def canonicalize_def scale_elem_def out_of_window_def
  time_sym_skip_def move_electron_def get_hamiltonian_elem_def window_max_def window_min_def
  n_elecs_def get_occupied_orbs_def has_def set_orb_def unset_orb_def vec_read_def err_bind_def
  ex_sys_def ts_sys_def upt_rec Let_def SQRT2_def SQRT2_INV_def

lemma move_electron_has:
  "(if is_up then has (up (move_electron is_up cd a b)) b
    else has (dn (move_electron is_up cd a b)) b)"
  by (simp add: move_electron_def has_set_orb)

lemma move_electron_neq:
  assumes "\<not> (if is_up then has (up det) b else has (dn det) b)"
  shows "move_electron is_up cd a b \<noteq> det"
  using assms move_electron_has[of is_up cd a b] by (auto split: if_splits)

lemma excite_single_pass:
  assumes "\<not> (if p_id < n_up sys then has (up det) r else has (dn det) r)"
    and "vec_read (orb_sym sys) r = Inr sym_p"
  shows "excite_single ham sys det eps_max eps_min p_id p sym_p r (cd, out) =
     (let c = move_electron (p_id < n_up sys) cd p r
      in if time_sym_skip sys det c \<or> out_of_window eps_max eps_min (ham det c)
         then Inr (c, out)
         else Inr (move_electron (p_id < n_up sys) (fst (delivery ham sys det c)) r p,
                   out @ [delivery ham sys det c]))"
  using assms by (simp add: excite_single_def err_bind_def Let_def)

lemma excite_single_cases:
  assumes "excite_single ham sys det eps_max eps_min p_id p sym_p r (cd, out) = Inr (cd', out')"
  shows "out' = out \<or>
     (\<exists>c. admitted ham sys det eps_max eps_min c \<and> out' = out @ [delivery ham sys det c])"
proof (cases "if p_id < n_up sys then has (up det) r else has (dn det) r")
  case True
  with assms show ?thesis by (auto simp add: excite_single_def split: if_splits)
next
  case occ: False
  from occ assms obtain sym_r where sr: "vec_read (orb_sym sys) r = Inr sym_r"
    by (cases "vec_read (orb_sym sys) r") (simp_all add: excite_single_def err_bind_def)
  show ?thesis
  proof (cases "sym_r = sym_p")
    case False
    with occ sr assms show ?thesis by (simp add: excite_single_def err_bind_def)
  next
    case True
    let ?c = "move_electron (p_id < n_up sys) cd p r"
    note eq = excite_single_pass[OF occ sr[unfolded True], of ham eps_max eps_min p cd out]
    show ?thesis
    proof (cases "time_sym_skip sys det ?c \<or> out_of_window eps_max eps_min (ham det ?c)")
      case True
      with eq assms show ?thesis by (simp add: Let_def)
    next
      case False
      with eq assms have "out' = out @ [delivery ham sys det ?c]" by (simp add: Let_def)
      moreover have "admitted ham sys det eps_max eps_min ?c"
        using False move_electron_neq[OF occ] by (simp add: admitted_def)
      ultimately show ?thesis by blast
    qed
  qed
qed

lemma excite_single_sent_ok:
  assumes "excite_single ham sys det eps_max eps_min p_id p sym_p r st = Inr st'"
    and "sent_ok ham sys det eps_max eps_min st"
  shows "sent_ok ham sys det eps_max eps_min st'"
proof -
  obtain cd out cd' out' where st: "st = (cd, out)" "st' = (cd', out')"
    by (cases st, cases st') auto
  from excite_single_cases[OF assms(1)[unfolded st]] assms(2)
  show ?thesis unfolding st sent_ok_def by auto
qed

lemma excite_from_sent_ok:
  assumes "excite_from ham sys det eps_max eps_min p_id st = Inr st'"
    and "sent_ok ham sys det eps_max eps_min st"
  shows "sent_ok ham sys det eps_max eps_min st'"
proof -
  from assms(1) obtain p sym_p where
    "for_each [0..<n_orbs sys] (excite_single ham sys det eps_max eps_min p_id p sym_p) st = Inr st'"
    by (auto simp add: excite_from_def err_bind_Inr)
  then show ?thesis using assms(2)
    by (rule for_each_invariant) (rule excite_single_sent_ok)
qed

lemma find_connected_dets_sent:
  assumes "find_connected_dets_with ham sys det eps_max_in eps_min_in = Inr out"
  shows "\<forall>x \<in> set out. \<exists>c.
     admitted ham sys det (window_max sys eps_max_in) (window_min sys eps_min_in) c \<and>
     x = delivery ham sys det c"
proof -
  from assms obtain st where
    l: "for_each [0..<n_elecs sys]
          (excite_from ham sys det (window_max sys eps_max_in) (window_min sys eps_min_in))
          (det, []) = Inr st" and out: "out = snd st"
    by (auto simp add: find_connected_dets_with_def err_bind_Inr)
  have "sent_ok ham sys det (window_max sys eps_max_in) (window_min sys eps_min_in) st"
    using l by (rule for_each_invariant) (simp_all add: sent_ok_def excite_from_sent_ok[unfolded sent_ok_def])
  then show ?thesis by (simp add: sent_ok_def out)
qed

lemma ex_sys_2_sent:
  "find_connected_dets (ex_sys 2) \<lparr>up = 1, dn = 2\<rparr> 0 0
     = Inr [(\<lparr>up = 2, dn = 2\<rparr>, 0), (\<lparr>up = 1, dn = 1\<rparr>, 0)]"
  by (simp add: fcd_eval)

text \<open>
  The claim as stated fails at the upper bound: with \<open>eps_max = eps_min = 0\<close> both
  candidates are handed over although their magnitude \<open>0\<close> is not below \<open>eps_max\<close>.
\<close>

theorem window_upper_bound_counterexample:
  "find_connected_dets (ex_sys 2) \<lparr>up = 1, dn = 2\<rparr> 0 0
     = Inr [(\<lparr>up = 2, dn = 2\<rparr>, 0), (\<lparr>up = 1, dn = 1\<rparr>, 0)] \<and>
   \<not> \<bar>get_hamiltonian_elem \<lparr>up = 1, dn = 2\<rparr> \<lparr>up = 2, dn = 2\<rparr>\<bar> < window_max (ex_sys 2) 0"
  using ex_sys_2_sent by (simp add: get_hamiltonian_elem_def window_max_def ex_sys_def)

text \<open>
  The run with its candidates recorded makes the same calls to the handler as the run itself.
\<close>

lemma for_each_ghost_drop:
  assumes "for_each xs body' (s, g) = Inr (s1, g1)"
    and "\<And>x s g s1 g1. body' x (s, g) = Inr (s1, g1) \<Longrightarrow> body x s = Inr s1"
  shows "for_each xs body s = Inr s1"
  using assms(1)
proof (induction xs arbitrary: s g)
  case Nil
  then show ?case by simp
next
  case (Cons x xs)
  from Cons.prems obtain t where t: "body' x (s, g) = Inr t"
    and rest: "for_each xs body' t = Inr (s1, g1)"
    by (auto split: sum.splits)
  obtain s2 g2 where t2: "t = (s2, g2)" by (cases t)
  from assms(2)[OF t[unfolded t2]] Cons.IH[OF rest[unfolded t2]] show ?case by simp
qed

lemma for_each_ghost_add:
  assumes "for_each xs body s = Inr s1"
    and "\<And>x s g s1. body x s = Inr s1 \<Longrightarrow> \<exists>g1. body' x (s, g) = Inr (s1, g1)"
  shows "\<exists>g1. for_each xs body' (s, g) = Inr (s1, g1)"
  using assms(1)
proof (induction xs arbitrary: s g)
  case Nil
  then show ?case by simp
next
  case (Cons x xs)
  from Cons.prems obtain s2 where s2: "body x s = Inr s2" and rest: "for_each xs body s2 = Inr s1"
    by (auto split: sum.splits)
  from assms(2)[OF s2, of g] obtain g2 where g2: "body' x (s, g) = Inr (s2, g2)" by blast
  from Cons.IH[OF rest, of g2] g2 show ?case by simp
qed

lemma traced_single_drop:
  "traced_single ham sys det eps_max eps_min p_id p sym_p r (s, g) = Inr (s1, g1)
     \<Longrightarrow> excite_single ham sys det eps_max eps_min p_id p sym_p r s = Inr s1"
  by (auto simp add: traced_single_def err_bind_Inr)

lemma traced_single_add:
  "excite_single ham sys det eps_max eps_min p_id p sym_p r s = Inr s1
     \<Longrightarrow> \<exists>g1. traced_single ham sys det eps_max eps_min p_id p sym_p r (s, g) = Inr (s1, g1)"
  by (simp add: traced_single_def err_bind_def)

lemma traced_from_drop:
  assumes "traced_from ham sys det eps_max eps_min p_id (s, g) = Inr (s1, g1)"
  shows "excite_from ham sys det eps_max eps_min p_id s = Inr s1"
proof -
  from assms obtain p sym_p where
    p: "(if p_id < n_up sys then vec_read (get_occupied_orbs (up det)) p_id
        else vec_read (get_occupied_orbs (dn det)) (p_id - n_up sys)) = Inr p"
    and sp: "vec_read (orb_sym sys) p = Inr sym_p"
    and l: "for_each [0..<n_orbs sys]
            (traced_single ham sys det eps_max eps_min p_id p sym_p) (s, g) = Inr (s1, g1)"
    unfolding traced_from_def err_bind_Inr by blast
  from l have "for_each [0..<n_orbs sys]
            (excite_single ham sys det eps_max eps_min p_id p sym_p) s = Inr s1"
    by (rule for_each_ghost_drop) (rule traced_single_drop)
  with p sp show ?thesis unfolding excite_from_def err_bind_Inr by blast
qed

lemma traced_from_add:
  assumes "excite_from ham sys det eps_max eps_min p_id s = Inr s1"
  shows "\<exists>g1. traced_from ham sys det eps_max eps_min p_id (s, g) = Inr (s1, g1)"
proof -
  from assms obtain p sym_p where
    p: "(if p_id < n_up sys then vec_read (get_occupied_orbs (up det)) p_id
        else vec_read (get_occupied_orbs (dn det)) (p_id - n_up sys)) = Inr p"
    and sp: "vec_read (orb_sym sys) p = Inr sym_p"
    and l: "for_each [0..<n_orbs sys]
            (excite_single ham sys det eps_max eps_min p_id p sym_p) s = Inr s1"
    unfolding excite_from_def err_bind_Inr by blast
  from l have "\<exists>g1. for_each [0..<n_orbs sys]
            (traced_single ham sys det eps_max eps_min p_id p sym_p) (s, g) = Inr (s1, g1)"
    by (rule for_each_ghost_add) (rule traced_single_add)
  with p sp show ?thesis unfolding traced_from_def err_bind_Inr by blast
qed

lemma traced_single_ok:
  assumes "traced_single ham sys det eps_max eps_min p_id p sym_p r tst = Inr tst1"
    and "traced_ok ham sys det eps_max eps_min tst"
  shows "traced_ok ham sys det eps_max eps_min tst1"
proof -
  obtain cd out formed where tst: "tst = ((cd, out), formed)" by (cases tst) auto
  from assms(1) obtain st1 where
    st1: "excite_single ham sys det eps_max eps_min p_id p sym_p r (cd, out) = Inr st1"
    and tst1: "tst1 = (st1, formed @ formed_by sys det p_id p sym_p r cd)"
    by (auto simp add: tst traced_single_def err_bind_Inr)
  from assms(2) have inv: "out = map (delivery ham sys det)
         (filter (\<lambda>c. \<not> time_sym_skip sys det c \<and>
                       \<not> out_of_window eps_max eps_min (ham det c)) formed)"
    by (simp add: traced_ok_def tst)
  show ?thesis
  proof (cases "if p_id < n_up sys then has (up det) r else has (dn det) r")
    case True
    with st1 have "snd st1 = out" "formed_by sys det p_id p sym_p r cd = []"
      by (auto simp add: excite_single_def formed_by_def split: if_splits)
    with inv show ?thesis by (simp add: traced_ok_def tst1)
  next
    case occ: False
    from occ st1 obtain sym_r where sr: "vec_read (orb_sym sys) r = Inr sym_r"
      by (cases "vec_read (orb_sym sys) r") (simp_all add: excite_single_def err_bind_def)
    show ?thesis
    proof (cases "sym_r = sym_p")
      case False
      with occ sr st1 have "snd st1 = out" "formed_by sys det p_id p sym_p r cd = []"
        by (auto simp add: excite_single_def formed_by_def err_bind_def)
      with inv show ?thesis by (simp add: traced_ok_def tst1)
    next
      case True
      let ?c = "move_electron (p_id < n_up sys) cd p r"
      note eq = excite_single_pass[OF occ sr[unfolded True], of ham eps_max eps_min p cd out]
      have f: "formed_by sys det p_id p sym_p r cd = [?c]"
        using occ sr True by (simp add: formed_by_def)
      show ?thesis
      proof (cases "time_sym_skip sys det ?c \<or> out_of_window eps_max eps_min (ham det ?c)")
        case True
        with eq st1 have "snd st1 = out" by (auto simp add: Let_def)
        with inv True show ?thesis by (auto simp add: traced_ok_def tst1 f)
      next
        case False
        with eq st1 have "snd st1 = out @ [delivery ham sys det ?c]" by (auto simp add: Let_def)
        with inv False show ?thesis by (auto simp add: traced_ok_def tst1 f)
      qed
    qed
  qed
qed

lemma traced_from_ok:
  assumes "traced_from ham sys det eps_max eps_min p_id tst = Inr tst1"
    and "traced_ok ham sys det eps_max eps_min tst"
  shows "traced_ok ham sys det eps_max eps_min tst1"
proof -
  from assms(1) obtain p sym_p where
    "for_each [0..<n_orbs sys]
       (traced_single ham sys det eps_max eps_min p_id p sym_p) tst = Inr tst1"
    by (auto simp add: traced_from_def err_bind_Inr)
  then show ?thesis using assms(2)
    by (rule for_each_invariant) (rule traced_single_ok)
qed

lemma run_is_filtered_candidates:
  assumes "find_connected_dets_with ham sys det eps_max_in eps_min_in = Inr sent"
  shows "\<exists>formed. formed_candidates ham sys det eps_max_in eps_min_in = Inr formed \<and>
     sent = map (delivery ham sys det)
       (filter (\<lambda>c. \<not> time_sym_skip sys det c \<and>
          \<not> out_of_window (window_max sys eps_max_in) (window_min sys eps_min_in) (ham det c))
          formed)"
proof -
  let ?E = "window_max sys eps_max_in" and ?e = "window_min sys eps_min_in"
  from assms obtain st where
    l: "for_each [0..<n_elecs sys] (excite_from ham sys det ?E ?e) (det, []) = Inr st"
    and sent: "sent = snd st"
    by (auto simp add: find_connected_dets_with_def err_bind_Inr)
  from l have "\<exists>g1. for_each [0..<n_elecs sys] (traced_from ham sys det ?E ?e) ((det, []), [])
      = Inr (st, g1)"
    by (rule for_each_ghost_add) (rule traced_from_add)
  then obtain formed where
    t: "for_each [0..<n_elecs sys] (traced_from ham sys det ?E ?e) ((det, []), [])
      = Inr (st, formed)" by blast
  have "traced_ok ham sys det ?E ?e (st, formed)"
    using t by (rule for_each_invariant) (simp_all add: traced_ok_def traced_from_ok[unfolded traced_ok_def])
  then have "sent = map (delivery ham sys det)
       (filter (\<lambda>c. \<not> time_sym_skip sys det c \<and> \<not> out_of_window ?E ?e (ham det c)) formed)"
    by (simp add: traced_ok_def sent)
  moreover from t have "formed_candidates ham sys det eps_max_in eps_min_in = Inr formed"
    by (simp add: formed_candidates_def err_bind_def)
  ultimately show ?thesis by blast
qed

lemmas traced_eval = formed_candidates_def traced_from_def traced_single_def formed_by_def

text \<open>
  Claim C2, as amended. When \<open>find_connected_dets\<close> returns, its calls to the sink are, in
  order and one for one, the candidates it formed that pass the two time-reversal tests and
  whose raw element satisfies \<open>eps_min \<le> |H| \<le> eps_max\<close>, the bounds being the caller's
  values, times \<open>\<surd>2\<close> when time-reversal symmetry is on. The window is closed at both ends:
  a candidate with \<open>|H| = eps_max\<close> is admitted. A candidate is \<open>connected_det\<close> as it stands
  after the move of the electron from \<open>p\<close> to \<open>r\<close>.
\<close>

theorem window_is_closed:
  "find_connected_dets_with ham sys det eps_max_in eps_min_in = Inr sent \<longrightarrow>
     (\<exists>formed. formed_candidates ham sys det eps_max_in eps_min_in = Inr formed \<and>
        sent = map (delivery ham sys det)
          (filter (\<lambda>c. \<not> time_sym_skip sys det c \<and>
                        (if time_sym sys then eps_min_in * sqrt 2 else eps_min_in) \<le> \<bar>ham det c\<bar> \<and>
                        \<bar>ham det c\<bar> \<le> (if time_sym sys then eps_max_in * sqrt 2 else eps_max_in))
             formed))"
proof
  assume "find_connected_dets_with ham sys det eps_max_in eps_min_in = Inr sent"
  from run_is_filtered_candidates[OF this] obtain formed where
    f: "formed_candidates ham sys det eps_max_in eps_min_in = Inr formed"
    and s: "sent = map (delivery ham sys det)
       (filter (\<lambda>c. \<not> time_sym_skip sys det c \<and>
          \<not> out_of_window (window_max sys eps_max_in) (window_min sys eps_min_in) (ham det c))
          formed)" by blast
  have "(\<lambda>c. \<not> time_sym_skip sys det c \<and>
          \<not> out_of_window (window_max sys eps_max_in) (window_min sys eps_min_in) (ham det c))
      = (\<lambda>c. \<not> time_sym_skip sys det c \<and>
                        (if time_sym sys then eps_min_in * sqrt 2 else eps_min_in) \<le> \<bar>ham det c\<bar> \<and>
                        \<bar>ham det c\<bar> \<le> (if time_sym sys then eps_max_in * sqrt 2 else eps_max_in))"
    by (auto simp add: out_of_window_def window_max_def window_min_def SQRT2_def fun_eq_iff)
  with f s show "\<exists>formed. formed_candidates ham sys det eps_max_in eps_min_in = Inr formed \<and>
        sent = map (delivery ham sys det)
          (filter (\<lambda>c. \<not> time_sym_skip sys det c \<and>
                        (if time_sym sys then eps_min_in * sqrt 2 else eps_min_in) \<le> \<bar>ham det c\<bar> \<and>
                        \<bar>ham det c\<bar> \<le> (if time_sym sys then eps_max_in * sqrt 2 else eps_max_in))
             formed)"
    by auto
qed

lemma sqrt2_bounds: "6 / 5 < sqrt 2" "sqrt 2 < 3 / 2"
proof -
  show "6 / 5 < sqrt 2" by (rule real_less_rsqrt) (simp add: power2_eq_square)
  show "sqrt 2 < 3 / 2" by (rule real_less_lsqrt) (simp_all add: power2_eq_square)
qed

lemma sqrt2_simps:
  "\<not> sqrt 2 * 5 < 6" "sqrt 2 * 2 < 3" "\<not> sqrt 2 < 6 / 5" "sqrt 2 < 3 / 2" "0 \<le> sqrt 2"
  using sqrt2_bounds by simp_all

lemma ex_ham_sent:
  "find_connected_dets_with ex_ham (ts_sys2 1) \<lparr>up = 1, dn = 2\<rparr> 1 0
     = Inr [(\<lparr>up = 2, dn = 2\<rparr>, 6 / 5 * sqrt 2)]"
  by (simp add: fcd_eval ts_sys2_def ex_ham_def sqrt2_simps)

lemma ex_ham_formed:
  "formed_candidates ex_ham (ts_sys2 1) \<lparr>up = 1, dn = 2\<rparr> 1 0
     = Inr [\<lparr>up = 2, dn = 2\<rparr>, \<lparr>up = 1, dn = 1\<rparr>]"
  by (simp add: traced_eval fcd_eval ts_sys2_def ex_ham_def sqrt2_simps)

theorem window_is_closed_witness:
  "find_connected_dets_with ex_ham (ts_sys2 1) \<lparr>up = 1, dn = 2\<rparr> 1 0
     = Inr [(\<lparr>up = 2, dn = 2\<rparr>, 6 / 5 * sqrt 2)] \<and>
   formed_candidates ex_ham (ts_sys2 1) \<lparr>up = 1, dn = 2\<rparr> 1 0
     = Inr [\<lparr>up = 2, dn = 2\<rparr>, \<lparr>up = 1, dn = 1\<rparr>] \<and>
   \<bar>ex_ham \<lparr>up = 1, dn = 2\<rparr> \<lparr>up = 2, dn = 2\<rparr>\<bar> = 6 / 5 \<and>
   \<bar>ex_ham \<lparr>up = 1, dn = 2\<rparr> \<lparr>up = 1, dn = 1\<rparr>\<bar> = 3 / 2 \<and>
   [(\<lparr>up = 2, dn = 2\<rparr>, 6 / 5 * sqrt 2)]
     = map (delivery ex_ham (ts_sys2 1) \<lparr>up = 1, dn = 2\<rparr>)
         (filter (\<lambda>c. \<not> time_sym_skip (ts_sys2 1) \<lparr>up = 1, dn = 2\<rparr> c \<and>
                       (if time_sym (ts_sys2 1) then 0 * sqrt 2 else 0)
                         \<le> \<bar>ex_ham \<lparr>up = 1, dn = 2\<rparr> c\<bar> \<and>
                       \<bar>ex_ham \<lparr>up = 1, dn = 2\<rparr> c\<bar>
                         \<le> (if time_sym (ts_sys2 1) then 1 * sqrt 2 else 1))
            [\<lparr>up = 2, dn = 2\<rparr>, \<lparr>up = 1, dn = 1\<rparr>])"
proof -
  let ?det = "\<lparr>up = 1, dn = 2\<rparr>"
  note t = window_is_closed[where ham = ex_ham and sys = "ts_sys2 1" and det = ?det
      and eps_max_in = 1 and eps_min_in = 0 and sent = "[(\<lparr>up = 2, dn = 2\<rparr>, 6 / 5 * sqrt 2)]"]
  from mp[OF t ex_ham_sent] obtain formed where
    f: "formed_candidates ex_ham (ts_sys2 1) ?det 1 0 = Inr formed"
    and s: "[(\<lparr>up = 2, dn = 2\<rparr>, 6 / 5 * sqrt 2)]
     = map (delivery ex_ham (ts_sys2 1) ?det)
         (filter (\<lambda>c. \<not> time_sym_skip (ts_sys2 1) ?det c \<and>
                       (if time_sym (ts_sys2 1) then 0 * sqrt 2 else 0) \<le> \<bar>ex_ham ?det c\<bar> \<and>
                       \<bar>ex_ham ?det c\<bar> \<le> (if time_sym (ts_sys2 1) then 1 * sqrt 2 else 1))
            formed)"
    by (elim exE conjE)
  from f ex_ham_formed have "formed = [\<lparr>up = 2, dn = 2\<rparr>, \<lparr>up = 1, dn = 1\<rparr>]" by simp
  with s ex_ham_sent ex_ham_formed show ?thesis by (simp add: ex_ham_def)
qed

lemma delivery_time_sym:
  "time_sym sys \<Longrightarrow> delivery ham sys det c = spec_delivery ham sys det c"
  by (simp add: delivery_def spec_delivery_def canonicalize_def scale_elem_def swap_spin_def
      SQRT2_def SQRT2_INV_def)

lemma excite_single_skip:
  assumes "time_sym_skip sys det (move_electron (p_id < n_up sys) cd p r)"
    and "excite_single ham sys det eps_max eps_min p_id p sym_p r (cd, out) = Inr (cd', out')"
  shows "out' = out"
  using assms by (auto simp add: excite_single_def err_bind_def Let_def split: if_splits sum.splits)

lemma delivery_canonical:
  assumes "time_sym sys"
  shows "up (fst (delivery ham sys det c)) \<le> dn (fst (delivery ham sys det c))"
  using assms by (simp add: delivery_def canonicalize_def)

lemma delivery_symmetric_iff:
  "up (fst (delivery ham sys det c)) = dn (fst (delivery ham sys det c)) \<longleftrightarrow> up c = dn c"
  by (auto simp add: delivery_def canonicalize_def)

lemma delivery_not_partner:
  assumes "time_sym sys" and "admitted ham sys det eps_max eps_min c"
  shows "fst (delivery ham sys det c) \<noteq> swap_spin det"
proof
  assume eq: "fst (delivery ham sys det c) = swap_spin det"
  from assms have ne: "c \<noteq> det" and ns: "\<not> (up c = dn det \<and> dn c = up det)"
    by (simp_all add: admitted_def time_sym_skip_def)
  show False
  proof (cases "dn c < up c")
    case True
    with eq assms(1) have "dn c = dn det \<and> up c = up det"
      by (simp add: delivery_def canonicalize_def swap_spin_def)
    with ne show False by simp
  next
    case False
    with eq have "c = swap_spin det" by (simp add: delivery_def canonicalize_def)
    with ns show False by (simp add: swap_spin_def)
  qed
qed

lemma ts_sys_1_sent:
  "find_connected_dets (ts_sys 1) \<lparr>up = 1, dn = 2\<rparr> 1 0
     = Inr [(\<lparr>up = 2, dn = 2\<rparr>, 0), (\<lparr>up = 2, dn = 4\<rparr>, 0),
            (\<lparr>up = 3, dn = 5\<rparr>, 0), (\<lparr>up = 3, dn = 4\<rparr>, 0)]"
  by (simp add: fcd_eval)

lemma ts_sys_neg_sent:
  "find_connected_dets (ts_sys (- 1)) \<lparr>up = 1, dn = 2\<rparr> 1 0
     = Inr [(\<lparr>up = 2, dn = 6\<rparr>, 0), (\<lparr>up = 3, dn = 5\<rparr>, 0), (\<lparr>up = 3, dn = 4\<rparr>, 0)]"
  by (simp add: fcd_eval)

text \<open>
  Claim C5, as amended. With time-reversal symmetry on, the calls to the sink are, in order
  and one for one, the candidates formed that are not the spin-swapped source, do not have
  equal halves while \<open>z < 0\<close>, and lie in the window. Every determinant handed over has its
  up half at most its down half; none is the spin-swapped source, none has equal halves when
  \<open>z < 0\<close>, and none with different halves is handed over together with its spin-swapped
  partner.
\<close>

theorem time_reversal_partner_skipped:
  assumes "time_sym sys"
  shows "find_connected_dets_with ham sys det eps_max_in eps_min_in = Inr sent \<longrightarrow>
     (\<exists>formed. formed_candidates ham sys det eps_max_in eps_min_in = Inr formed \<and>
        sent = map (delivery ham sys det)
          (filter (\<lambda>c. \<not> (up c = dn det \<and> dn c = up det) \<and>
                        \<not> (up c = dn c \<and> z sys < 0) \<and>
                        \<not> out_of_window (window_max sys eps_max_in) (window_min sys eps_min_in)
                            (ham det c))
             formed)) \<and>
     (\<forall>x \<in> set sent.
        up (fst x) \<le> dn (fst x) \<and> fst x \<noteq> swap_spin det \<and>
        (z sys < 0 \<longrightarrow> up (fst x) \<noteq> dn (fst x)) \<and>
        (up (fst x) \<noteq> dn (fst x) \<longrightarrow> swap_spin (fst x) \<notin> fst ` set sent))"
proof
  assume run: "find_connected_dets_with ham sys det eps_max_in eps_min_in = Inr sent"
  from run_is_filtered_candidates[OF run] obtain formed where
    f: "formed_candidates ham sys det eps_max_in eps_min_in = Inr formed"
    and s: "sent = map (delivery ham sys det)
       (filter (\<lambda>c. \<not> time_sym_skip sys det c \<and>
          \<not> out_of_window (window_max sys eps_max_in) (window_min sys eps_min_in) (ham det c))
          formed)" by blast
  have "(\<lambda>c. \<not> time_sym_skip sys det c \<and>
          \<not> out_of_window (window_max sys eps_max_in) (window_min sys eps_min_in) (ham det c))
      = (\<lambda>c. \<not> (up c = dn det \<and> dn c = up det) \<and> \<not> (up c = dn c \<and> z sys < 0) \<and>
             \<not> out_of_window (window_max sys eps_max_in) (window_min sys eps_min_in) (ham det c))"
    using assms by (auto simp add: time_sym_skip_def fun_eq_iff)
  with f s have 1: "\<exists>formed. formed_candidates ham sys det eps_max_in eps_min_in = Inr formed \<and>
        sent = map (delivery ham sys det)
          (filter (\<lambda>c. \<not> (up c = dn det \<and> dn c = up det) \<and>
                        \<not> (up c = dn c \<and> z sys < 0) \<and>
                        \<not> out_of_window (window_max sys eps_max_in) (window_min sys eps_min_in)
                            (ham det c))
             formed)" by auto
  have adm: "\<exists>c. admitted ham sys det (window_max sys eps_max_in) (window_min sys eps_min_in) c \<and>
                 x = delivery ham sys det c" if "x \<in> set sent" for x
    using find_connected_dets_sent[OF run] that by blast
  have canon: "up (fst x) \<le> dn (fst x)" if "x \<in> set sent" for x
    using adm[OF that] delivery_canonical[OF assms] by auto
  have 2: "\<forall>x \<in> set sent.
        up (fst x) \<le> dn (fst x) \<and> fst x \<noteq> swap_spin det \<and>
        (z sys < 0 \<longrightarrow> up (fst x) \<noteq> dn (fst x)) \<and>
        (up (fst x) \<noteq> dn (fst x) \<longrightarrow> swap_spin (fst x) \<notin> fst ` set sent)"
  proof
    fix x assume x: "x \<in> set sent"
    from adm[OF x] obtain c where
      c: "admitted ham sys det (window_max sys eps_max_in) (window_min sys eps_min_in) c"
         "x = delivery ham sys det c" by blast
    have a: "up (fst x) \<le> dn (fst x)" by (rule canon[OF x])
    have b: "fst x \<noteq> swap_spin det" using delivery_not_partner[OF assms c(1)] c(2) by simp
    have d: "z sys < 0 \<longrightarrow> up (fst x) \<noteq> dn (fst x)"
      using c assms by (auto simp add: delivery_symmetric_iff admitted_def time_sym_skip_def)
    have e: "swap_spin (fst x) \<notin> fst ` set sent" if ne: "up (fst x) \<noteq> dn (fst x)"
    proof
      assume "swap_spin (fst x) \<in> fst ` set sent"
      then obtain y where y: "y \<in> set sent" "fst y = swap_spin (fst x)" by auto
      from canon[OF y(1)] y(2) have "dn (fst x) \<le> up (fst x)" by (simp add: swap_spin_def)
      with a ne show False by simp
    qed
    from a b d e show "up (fst x) \<le> dn (fst x) \<and> fst x \<noteq> swap_spin det \<and>
        (z sys < 0 \<longrightarrow> up (fst x) \<noteq> dn (fst x)) \<and>
        (up (fst x) \<noteq> dn (fst x) \<longrightarrow> swap_spin (fst x) \<notin> fst ` set sent)" by blast
  qed
  from 1 2 show "(\<exists>formed. formed_candidates ham sys det eps_max_in eps_min_in = Inr formed \<and>
        sent = map (delivery ham sys det)
          (filter (\<lambda>c. \<not> (up c = dn det \<and> dn c = up det) \<and>
                        \<not> (up c = dn c \<and> z sys < 0) \<and>
                        \<not> out_of_window (window_max sys eps_max_in) (window_min sys eps_min_in)
                            (ham det c))
             formed)) \<and>
     (\<forall>x \<in> set sent.
        up (fst x) \<le> dn (fst x) \<and> fst x \<noteq> swap_spin det \<and>
        (z sys < 0 \<longrightarrow> up (fst x) \<noteq> dn (fst x)) \<and>
        (up (fst x) \<noteq> dn (fst x) \<longrightarrow> swap_spin (fst x) \<notin> fst ` set sent))" by blast
qed

lemma ts_sys2_symmetric_sent:
  "find_connected_dets (ts_sys2 1) \<lparr>up = 1, dn = 1\<rparr> 1 0
     = Inr [(\<lparr>up = 1, dn = 2\<rparr>, 0), (\<lparr>up = 1, dn = 2\<rparr>, 0)]"
  by (simp add: fcd_eval ts_sys2_def)

lemma ts_sys2_symmetric_formed:
  "formed_candidates get_hamiltonian_elem (ts_sys2 1) \<lparr>up = 1, dn = 1\<rparr> 1 0
     = Inr [\<lparr>up = 2, dn = 1\<rparr>, \<lparr>up = 1, dn = 2\<rparr>]"
  by (simp add: traced_eval fcd_eval ts_sys2_def)

text \<open>
  The claim as stated fails: a candidate and its spin-swapped partner can both reach the
  sink. From the source with both electrons in orbital \<open>0\<close> and \<open>z = 1\<close> the two candidates
  formed are partners of each other, and both are handed over, as the same determinant.
\<close>

theorem partner_candidates_both_delivered:
  "find_connected_dets (ts_sys2 1) \<lparr>up = 1, dn = 1\<rparr> 1 0
     = Inr [(\<lparr>up = 1, dn = 2\<rparr>, 0), (\<lparr>up = 1, dn = 2\<rparr>, 0)] \<and>
   formed_candidates get_hamiltonian_elem (ts_sys2 1) \<lparr>up = 1, dn = 1\<rparr> 1 0
     = Inr [\<lparr>up = 2, dn = 1\<rparr>, \<lparr>up = 1, dn = 2\<rparr>] \<and>
   \<lparr>up = 1, dn = 2\<rparr> = swap_spin \<lparr>up = 2, dn = 1\<rparr>"
  using ts_sys2_symmetric_sent ts_sys2_symmetric_formed by (simp add: swap_spin_def)

lemma ts_sys2_neg_sent:
  "find_connected_dets_with get_hamiltonian_elem (ts_sys2 (- 1)) \<lparr>up = 1, dn = 2\<rparr> 1 0 = Inr []"
  by (simp add: fcd_eval ts_sys2_def)

lemma ts_sys2_neg_formed:
  "formed_candidates get_hamiltonian_elem (ts_sys2 (- 1)) \<lparr>up = 1, dn = 2\<rparr> 1 0
     = Inr [\<lparr>up = 2, dn = 2\<rparr>, \<lparr>up = 2, dn = 1\<rparr>]"
  by (simp add: traced_eval fcd_eval ts_sys2_def)

theorem time_reversal_partner_skipped_witness:
  "time_sym (ts_sys2 (- 1)) \<and> z (ts_sys2 (- 1)) < 0 \<and>
   find_connected_dets_with get_hamiltonian_elem (ts_sys2 (- 1)) \<lparr>up = 1, dn = 2\<rparr> 1 0 = Inr [] \<and>
   formed_candidates get_hamiltonian_elem (ts_sys2 (- 1)) \<lparr>up = 1, dn = 2\<rparr> 1 0
     = Inr [\<lparr>up = 2, dn = 2\<rparr>, \<lparr>up = 2, dn = 1\<rparr>] \<and>
   up \<lparr>up = 2, dn = 2\<rparr> = dn \<lparr>up = 2, dn = 2\<rparr> \<and>
   \<lparr>up = 2, dn = 1\<rparr> = swap_spin \<lparr>up = 1, dn = 2\<rparr> \<and>
   [] = map (delivery get_hamiltonian_elem (ts_sys2 (- 1)) \<lparr>up = 1, dn = 2\<rparr>)
          (filter (\<lambda>c. \<not> (up c = dn \<lparr>up = 1, dn = 2\<rparr> \<and> dn c = up \<lparr>up = 1, dn = 2\<rparr>) \<and>
                        \<not> (up c = dn c \<and> z (ts_sys2 (- 1)) < 0) \<and>
                        \<not> out_of_window (window_max (ts_sys2 (- 1)) 1) (window_min (ts_sys2 (- 1)) 0)
                            (get_hamiltonian_elem \<lparr>up = 1, dn = 2\<rparr> c))
             [\<lparr>up = 2, dn = 2\<rparr>, \<lparr>up = 2, dn = 1\<rparr>]) \<and>
   time_sym (ts_sys 1) \<and>
   find_connected_dets_with get_hamiltonian_elem (ts_sys 1) \<lparr>up = 1, dn = 2\<rparr> 1 0
     = Inr [(\<lparr>up = 2, dn = 2\<rparr>, 0), (\<lparr>up = 2, dn = 4\<rparr>, 0),
            (\<lparr>up = 3, dn = 5\<rparr>, 0), (\<lparr>up = 3, dn = 4\<rparr>, 0)] \<and>
   up \<lparr>up = 2, dn = 4\<rparr> \<le> dn \<lparr>up = 2, dn = 4\<rparr> \<and>
   \<lparr>up = 2, dn = 4\<rparr> \<noteq> swap_spin \<lparr>up = 1, dn = 2\<rparr> \<and>
   swap_spin \<lparr>up = 2, dn = 4\<rparr>
     \<notin> fst ` set [(\<lparr>up = 2, dn = 2\<rparr>, 0::real), (\<lparr>up = 2, dn = 4\<rparr>, 0),
                  (\<lparr>up = 3, dn = 5\<rparr>, 0), (\<lparr>up = 3, dn = 4\<rparr>, 0)]"
proof -
  let ?det = "\<lparr>up = 1, dn = 2\<rparr>"
  let ?sent = "[(\<lparr>up = 2, dn = 2\<rparr>, 0::real), (\<lparr>up = 2, dn = 4\<rparr>, 0),
            (\<lparr>up = 3, dn = 5\<rparr>, 0), (\<lparr>up = 3, dn = 4\<rparr>, 0)]"
  have tn: "time_sym (ts_sys2 (- 1))" and zn: "z (ts_sys2 (- 1)) < 0" and tp: "time_sym (ts_sys 1)"
    by (simp_all add: ts_sys2_def ts_sys_def ex_sys_def)
  note t1 = time_reversal_partner_skipped[OF tn, where ham = get_hamiltonian_elem
      and det = ?det and eps_max_in = 1 and eps_min_in = 0 and sent = "[]"]
  from conjunct1[OF mp[OF t1 ts_sys2_neg_sent]] obtain formed where
    f: "formed_candidates get_hamiltonian_elem (ts_sys2 (- 1)) ?det 1 0 = Inr formed"
    and s: "[] = map (delivery get_hamiltonian_elem (ts_sys2 (- 1)) ?det)
          (filter (\<lambda>c. \<not> (up c = dn ?det \<and> dn c = up ?det) \<and>
                        \<not> (up c = dn c \<and> z (ts_sys2 (- 1)) < 0) \<and>
                        \<not> out_of_window (window_max (ts_sys2 (- 1)) 1) (window_min (ts_sys2 (- 1)) 0)
                            (get_hamiltonian_elem ?det c))
             formed)"
    by (elim exE conjE)
  from f ts_sys2_neg_formed have fe: "formed = [\<lparr>up = 2, dn = 2\<rparr>, \<lparr>up = 2, dn = 1\<rparr>]" by simp
  note s' = s[unfolded fe]
  have run: "find_connected_dets_with get_hamiltonian_elem (ts_sys 1) ?det 1 0 = Inr ?sent"
    using ts_sys_1_sent by (simp add: find_connected_dets_def)
  note t2 = time_reversal_partner_skipped[OF tp, where ham = get_hamiltonian_elem
      and det = ?det and eps_max_in = 1 and eps_min_in = 0 and sent = ?sent]
  have mem: "(\<lparr>up = 2, dn = 4\<rparr>, 0) \<in> set ?sent" by simp
  have ne: "up (fst (\<lparr>up = 2, dn = 4\<rparr>, 0::real)) \<noteq> dn (fst (\<lparr>up = 2, dn = 4\<rparr>, 0::real))" by simp
  from conjunct2[OF mp[OF t2 run]] mem ne have
    "up (fst (\<lparr>up = 2, dn = 4\<rparr>, 0::real)) \<le> dn (fst (\<lparr>up = 2, dn = 4\<rparr>, 0::real)) \<and>
     fst (\<lparr>up = 2, dn = 4\<rparr>, 0::real) \<noteq> swap_spin ?det \<and>
     swap_spin (fst (\<lparr>up = 2, dn = 4\<rparr>, 0::real)) \<notin> fst ` set ?sent"
    by blast
  then have r: "up \<lparr>up = 2, dn = 4\<rparr> \<le> dn \<lparr>up = 2, dn = 4\<rparr>"
    "\<lparr>up = 2, dn = 4\<rparr> \<noteq> swap_spin ?det"
    "swap_spin \<lparr>up = 2, dn = 4\<rparr> \<notin> fst ` set ?sent" by simp_all
  have sw: "\<lparr>up = 2, dn = 1\<rparr> = swap_spin ?det" by (simp add: swap_spin_def)
  have eq: "up \<lparr>up = 2, dn = 2\<rparr> = dn \<lparr>up = 2, dn = 2\<rparr>" by simp
  from tn zn ts_sys2_neg_sent ts_sys2_neg_formed eq sw s' tp run r show ?thesis by blast
qed

lemmas step_eval = excite_single_def delivery_def canonicalize_def scale_elem_def
  out_of_window_def time_sym_skip_def move_electron_def get_hamiltonian_elem_def
  has_def set_orb_def unset_orb_def vec_read_def err_bind_def ex_sys_def ts_sys_def Let_def
  SQRT2_def SQRT2_INV_def

text \<open>
  Claim C6. With time-reversal symmetry on, what the sink receives for a candidate that is
  not skipped is the pair the specification describes: the candidate, swapped when its up
  half exceeds its down half, and the raw element times the normalisation factor and, on a
  swap, times \<open>z\<close>. Every call to the sink is of this form.
\<close>

theorem time_reversal_scaling:
  assumes "time_sym sys"
    and "\<not> (if p_id < n_up sys then has (up det) r else has (dn det) r)"
    and "vec_read (orb_sym sys) r = Inr sym_p"
    and "\<not> time_sym_skip sys det (move_electron (p_id < n_up sys) cd p r)"
    and "\<not> out_of_window eps_max eps_min (ham det (move_electron (p_id < n_up sys) cd p r))"
  shows "(\<exists>cd'. excite_single ham sys det eps_max eps_min p_id p sym_p r (cd, out) =
            Inr (cd', out @ [spec_delivery ham sys det (move_electron (p_id < n_up sys) cd p r)])) \<and>
         (find_connected_dets_with ham sys det eps_max_in eps_min_in = Inr sent \<longrightarrow>
            (\<forall>x \<in> set sent. \<exists>c. x = spec_delivery ham sys det c))"
proof -
  have 1: "\<exists>cd'. excite_single ham sys det eps_max eps_min p_id p sym_p r (cd, out) =
            Inr (cd', out @ [spec_delivery ham sys det (move_electron (p_id < n_up sys) cd p r)])"
    using assms(4,5)
    by (simp add: excite_single_pass[OF assms(2,3)] Let_def delivery_time_sym[OF assms(1)])
  have 2: "\<forall>x \<in> set sent. \<exists>c. x = spec_delivery ham sys det c"
    if "find_connected_dets_with ham sys det eps_max_in eps_min_in = Inr sent"
    using find_connected_dets_sent[OF that] delivery_time_sym[OF assms(1)] by metis
  from 1 2 show ?thesis by blast
qed

theorem time_reversal_scaling_witness:
  "time_sym (ts_sys (- 1)) \<and>
   \<not> has (up \<lparr>up = 1, dn = 2\<rparr>) 2 \<and>
   vec_read (orb_sym (ts_sys (- 1))) 2 = Inr 1 \<and>
   move_electron (0 < n_up (ts_sys (- 1))) \<lparr>up = 1, dn = 2\<rparr> 0 2 = \<lparr>up = 4, dn = 2\<rparr> \<and>
   \<not> time_sym_skip (ts_sys (- 1)) \<lparr>up = 1, dn = 2\<rparr> \<lparr>up = 4, dn = 2\<rparr> \<and>
   \<not> out_of_window 2 0 ((\<lambda>a b. 1) \<lparr>up = 1, dn = 2\<rparr> \<lparr>up = 4, dn = 2\<rparr>) \<and>
   snd (projr (excite_single (\<lambda>a b. 1) (ts_sys (- 1)) \<lparr>up = 1, dn = 2\<rparr> 2 0 0 0 1 2
          (\<lparr>up = 1, dn = 2\<rparr>, []))) = [(\<lparr>up = 2, dn = 4\<rparr>, - 1)]"
proof -
  let ?det = "\<lparr>up = 1, dn = 2\<rparr>" and ?sys = "ts_sys (- 1)"
  have t: "time_sym ?sys" by (simp add: ts_sys_def ex_sys_def)
  have mv: "move_electron (0 < n_up ?sys) ?det 0 2 = \<lparr>up = 4, dn = 2\<rparr>"
    by (simp add: move_electron_def ts_sys_def ex_sys_def set_orb_def unset_orb_def has_def)
  have a: "\<not> (if 0 < n_up ?sys then has (up ?det) 2 else has (dn ?det) 2)"
    by (simp add: ts_sys_def ex_sys_def has_def)
  have b: "vec_read (orb_sym ?sys) 2 = Inr 1"
    by (simp add: vec_read_def ts_sys_def ex_sys_def numeral_eq_Suc)
  have c: "\<not> time_sym_skip ?sys ?det (move_electron (0 < n_up ?sys) ?det 0 2)"
    unfolding mv by (simp add: time_sym_skip_def ts_sys_def ex_sys_def)
  have d: "\<not> out_of_window 2 0 ((\<lambda>a b. 1) ?det (move_electron (0 < n_up ?sys) ?det 0 2))"
    by (simp add: out_of_window_def)
  have e: "spec_delivery (\<lambda>a b. 1) ?sys ?det \<lparr>up = 4, dn = 2\<rparr> = (\<lparr>up = 2, dn = 4\<rparr>, - 1)"
    by (simp add: spec_delivery_def swap_spin_def ts_sys_def ex_sys_def)
  note th = time_reversal_scaling[OF t a b c d, where out = "[]" and eps_max_in = 0
      and eps_min_in = 0 and sent = "[]"]
  from th[unfolded mv e] obtain cd' where
    "excite_single (\<lambda>a b. 1) ?sys ?det 2 0 0 0 1 2 (?det, [])
       = Inr (cd', [] @ [(\<lparr>up = 2, dn = 4\<rparr>, - 1)])" by blast
  then have f: "snd (projr (excite_single (\<lambda>a b. 1) ?sys ?det 2 0 0 0 1 2 (?det, [])))
      = [(\<lparr>up = 2, dn = 4\<rparr>, - 1)]" by simp
  have "\<not> has (up ?det) 2" by (simp add: has_def)
  with t b mv c[unfolded mv] d[unfolded mv] f show ?thesis by blast
qed

text \<open>
  Claim C7 fails on the code. With time-reversal symmetry on (and the default sign
  \<open>z = 1\<close>), source \<open>up = {0}\<close>, \<open>dn = {1}\<close> and three orbitals of one irrep, the second
  candidate is swapped before it is handed over, and the statements that undo the move
  then act on the swapped halves: the next two determinants handed over hold four and
  three electrons, the source two.
\<close>

theorem swap_corrupts_connected_det:
  "find_connected_dets (ts_sys 1) \<lparr>up = 1, dn = 2\<rparr> 1 0
     = Inr [(\<lparr>up = 2, dn = 2\<rparr>, 0), (\<lparr>up = 2, dn = 4\<rparr>, 0),
            (\<lparr>up = 3, dn = 5\<rparr>, 0), (\<lparr>up = 3, dn = 4\<rparr>, 0)] \<and>
   n_elec \<lparr>up = 1, dn = 2\<rparr> = 2 \<and> n_elec \<lparr>up = 3, dn = 5\<rparr> = 4 \<and>
   n_elec \<lparr>up = 3, dn = 4\<rparr> = 3"
  using ts_sys_1_sent
  by (simp add: n_elec_def n_occ_def get_occupied_orbs_def has_def upt_rec)

end
